theory Spec2Isabelle
  imports Complex_Main "HOL-Library.AList"
begin

section \<open>The YouTube channel shop: filter engine and reconciler\<close>

text \<open>
  A shallow embedding of \<^verbatim>\<open>src/index.ts\<close> (class \<^verbatim>\<open>YouTubeChannelShop\<close>).

  Conventions of the embedding:
  \<^item> a JavaScript number that the code computes with is an integer or \<^verbatim>\<open>NaN\<close>
    (\<open>num_js\<close>). The integers of the model are unbounded and exact. The doubles of the
    code agree with them as long as every value stays below \<open>2 ^ 53\<close> in absolute value;
    beyond that the code rounds, and from about \<open>1.8 * 10 ^ 308\<close> on it gives
    \<^verbatim>\<open>Infinity\<close>, which the model does not have. The general statement about the
    duration parser carries the bound \<open>2 ^ 53\<close> as a hypothesis;
  \<^item> an optional property (\<^verbatim>\<open>x?: T\<close>, or a value that may be \<^verbatim>\<open>undefined\<close>) is an
    \<open>option\<close>; \<^verbatim>\<open>null\<close> is not told apart from \<^verbatim>\<open>undefined\<close>;
  \<^item> a string is a \<open>char list\<close>;
  \<^item> a JavaScript object used as a dictionary is an association list in insertion
    order, read through \<open>map_of\<close>; an assignment \<^verbatim>\<open>o[k] = v\<close> is \<open>AList.update\<close>.
    Keys that JavaScript treats specially (integer-like keys, \<^verbatim>\<open>__proto__\<close>) are not
    told apart from ordinary keys;
  \<^item> a \<^verbatim>\<open>throw\<close> is the left injection of \<open>error + 'a\<close>;
  \<^item> what the class obtains from libraries and from the network (the clock, the parsing
    of dates, regular expressions, the JSON serialiser, the catalogue listing, the
    transcript service) is a field of the record \<open>env\<close>, so every theorem holds for any
    behaviour of these collaborators.
\<close>

subsection \<open>JavaScript values\<close>

datatype num_js = Number int | NaN

datatype error = Error string | SyntaxError string | Failure string

text \<open>Truthiness, as \<^verbatim>\<open>if (x)\<close>, \<^verbatim>\<open>x ? a : b\<close>, \<^verbatim>\<open>x && y\<close> and \<^verbatim>\<open>!x\<close> test it.\<close>

definition truthy_str :: "string option \<Rightarrow> bool" where
  "truthy_str x = (case x of None \<Rightarrow> False | Some s \<Rightarrow> s \<noteq> [])"

fun truthy_num :: "num_js \<Rightarrow> bool" where
  "truthy_num (Number n) = (n \<noteq> 0)"
| "truthy_num NaN = False"

text \<open>The relational operators on numbers: a comparison with \<^verbatim>\<open>NaN\<close> is false.\<close>

fun lt_js :: "num_js \<Rightarrow> num_js \<Rightarrow> bool" where
  "lt_js (Number a) (Number b) = (a < b)"
| "lt_js _ _ = False"

fun gt_js :: "num_js \<Rightarrow> num_js \<Rightarrow> bool" where
  "gt_js (Number a) (Number b) = (a > b)"
| "gt_js _ _ = False"

fun times_js :: "num_js \<Rightarrow> int \<Rightarrow> num_js" where
  "times_js (Number a) k = Number (a * k)"
| "times_js NaN k = NaN"

subsection \<open>\<^verbatim>\<open>parseInt(s, 10)\<close>\<close>

text \<open>
  The built-in: leading white space is skipped, one sign is read, then the longest run
  of decimal digits; what follows is ignored, and no digit at all gives \<^verbatim>\<open>NaN\<close>.
\<close>

definition is_digit :: "char \<Rightarrow> bool" where
  "is_digit c = (c \<in> set ''0123456789'')"

definition is_space :: "char \<Rightarrow> bool" where
  "is_space c = (c \<in> set [CHR '' '', CHR 0x09, CHR 0x0A, CHR 0x0B, CHR 0x0C, CHR 0x0D, CHR 0xA0])"

definition digit_val :: "char \<Rightarrow> int" where
  "digit_val c = int (of_char c) - 48"

definition digits_val :: "string \<Rightarrow> int" where
  "digits_val ds = foldl (\<lambda>a c. 10 * a + digit_val c) 0 ds"

definition parseInt :: "string \<Rightarrow> num_js" where
  "parseInt s =
     (let t = dropWhile is_space s;
          neg = (t \<noteq> [] \<and> hd t = CHR ''-'');
          u = (if t \<noteq> [] \<and> (hd t = CHR ''-'' \<or> hd t = CHR ''+'') then tl t else t);
          ds = takeWhile is_digit u
      in if ds = [] then NaN else Number (if neg then - digits_val ds else digits_val ds))"

subsection \<open>Duration parser\<close>

text \<open>
  \<^verbatim>\<open>duration.match(/PT(\d+H)?(\d+M)?(\d+S)?/)\<close>. The pattern is not anchored, so the
  match starts at the leftmost \<^verbatim>\<open>PT\<close> of the string, and there is no match exactly when
  the string has no \<^verbatim>\<open>PT\<close>. Each group is optional and greedy: it takes the longest run
  of digits at the current position when that run is not empty and the unit letter
  follows it, and nothing otherwise. The arithmetic of the model is exact; it is the
  arithmetic of the code as long as the total stays below \<open>2 ^ 53\<close> (in the code a
  component of more than 308 digits is \<^verbatim>\<open>Infinity\<close>).
\<close>

fun find_PT :: "string \<Rightarrow> string option" where
  "find_PT (a # b # r) = (if a = CHR ''P'' \<and> b = CHR ''T'' then Some r else find_PT (b # r))"
| "find_PT _ = None"

definition opt_group :: "char \<Rightarrow> string \<Rightarrow> string option \<times> string" where
  "opt_group u s =
     (let ds = takeWhile is_digit s; r = dropWhile is_digit s
      in if ds \<noteq> [] \<and> r \<noteq> [] \<and> hd r = u then (Some (ds @ [u]), tl r) else (None, s))"

text \<open>A number that a captured group gives: \<^verbatim>\<open>match[i] ? parseInt(match[i], 10) : 0\<close>.\<close>

definition group_num :: "string option \<Rightarrow> num_js" where
  "group_num g = (case g of None \<Rightarrow> Number 0 | Some m \<Rightarrow> if m = [] then Number 0 else parseInt m)"

fun plus_js :: "num_js \<Rightarrow> num_js \<Rightarrow> num_js" where
  "plus_js (Number a) (Number b) = Number (a + b)"
| "plus_js _ _ = NaN"

definition parseDuration :: "string \<Rightarrow> num_js" where
  "parseDuration duration =
     (case find_PT duration of
        None \<Rightarrow> Number 0
      | Some r0 \<Rightarrow>
          (let (m1, r1) = opt_group (CHR ''H'') r0;
               (m2, r2) = opt_group (CHR ''M'') r1;
               (m3, r3) = opt_group (CHR ''S'') r2;
               hours = group_num m1;
               minutes = group_num m2;
               seconds = group_num m3
           in plus_js (plus_js (times_js hours 3600) (times_js minutes 60)) seconds))"

text \<open>
  The number that a string of decimal digits denotes, written positionally. It is not
  code of the class: it states what the parser is to compute.
\<close>

definition decimal :: "string \<Rightarrow> int" where
  "decimal ds = (\<Sum>i<length ds. digit_val (ds ! i) * 10 ^ (length ds - Suc i))"

subsection \<open>Data model\<close>

text \<open>
  The part of \<^verbatim>\<open>youtube_v3.Schema$Video\<close> that the class reads. The optional chains
  \<^verbatim>\<open>video.contentDetails?.duration\<close> and \<^verbatim>\<open>video.snippet?.thumbnails?.high?.url\<close> are
  one optional field each; \<open>vid\<close> is \<^verbatim>\<open>video.id\<close>.
\<close>

record snippet =
  title :: "string option"
  publishedAt :: "string option"
  channelTitle :: "string option"
  thumbnails_high_url :: "string option"

record video =
  vid :: "string option"
  snippet :: "snippet option"
  contentDetails_duration :: "string option"

text \<open>
  A configuration value that \<^verbatim>\<open>shoprag.json\<close> may give as a string or as a number;
  \<open>CNum x\<close> is the JSON number whose value as a double is \<open>x\<close>.
\<close>

datatype scalar = CStr string | CNum real

record config =
  cfg_channelId :: "string option"
  cfg_mode :: "string option"
  cfg_noDelete :: "bool option"
  cfg_titleIncludes :: "string option"
  cfg_durationMoreThan :: "scalar option"
  cfg_durationLessThan :: "scalar option"
  cfg_dropAfter :: "string option"
  cfg_startDate :: "string option"
  cfg_includeHeader :: "bool option"

text \<open>\<^verbatim>\<open>interface Filters\<close>; a compiled \<^verbatim>\<open>RegExp\<close> is its \<^verbatim>\<open>test\<close> function.\<close>

record filters =
  titleIncludes :: "(string \<Rightarrow> bool) option"
  durationMoreThan :: "num_js option"
  durationLessThan :: "num_js option"
  dropAfter :: "string option"
  startDate :: "string option"

text \<open>The private fields of the class, apart from the API client.\<close>

record shop =
  channelId :: string
  mode :: string
  noDelete :: bool
  includeHeader :: bool
  filters :: filters

text \<open>
  The collaborators. \<open>now\<close> is the instant \<^verbatim>\<open>moment()\<close> reads, in milliseconds (one
  instant for all the items of a pass);
  \<open>new_Date\<close> is the time value of \<^verbatim>\<open>new Date(s)\<close> (\<open>NaN\<close> for an invalid date);
  \<open>new_RegExp\<close> compiles a pattern or throws; \<open>getAllVideoDetails\<close> is the outcome of the
  two paginated API loops of the method of that name; \<open>fetchTranscript\<close> is
  \<^verbatim>\<open>YoutubeTranscript.fetchTranscript\<close> followed by the projection to the texts;
  \<open>Number_toString\<close> is the text that JavaScript prints for a number that is not an
  integer below \<open>2 ^ 53\<close> (fraction digits, exponent notation from \<open>10 ^ 21\<close> on).
\<close>

record env =
  now :: int
  new_Date :: "string \<Rightarrow> num_js"
  new_RegExp :: "string \<Rightarrow> error + (string \<Rightarrow> bool)"
  JSON_stringify :: "snippet \<Rightarrow> string"
  toISOString :: "int \<Rightarrow> string"
  getAllVideoDetails :: "error + video list"
  fetchTranscript :: "string option \<Rightarrow> error + string list"
  Number_toString :: "real \<Rightarrow> string"

datatype action = Add | Update | Delete

type_synonym change = "action \<times> string option"

type_synonym changes = "(string \<times> change) list"

type_synonym files = "(string \<times> nat) list"

subsection \<open>Initialisation\<close>

fun truthy_scalar :: "scalar \<Rightarrow> bool" where
  "truthy_scalar (CStr s) = (s \<noteq> [])"
| "truthy_scalar (CNum x) = (x \<noteq> 0)"

text \<open>
  The text of a number, as \<^verbatim>\<open>parseInt\<close> obtains it from a first argument that is not a
  string. An integer below \<open>2 ^ 53\<close> in absolute value prints as its decimal digits, with
  a minus sign when negative; every other number prints as the collaborator
  \<open>Number_toString\<close> says (\<^verbatim>\<open>300.5\<close>, \<^verbatim>\<open>1e+21\<close>).
\<close>

fun show_nat :: "nat \<Rightarrow> string" where
  "show_nat n =
     (if n < 10 then [''0123456789'' ! n]
      else show_nat (n div 10) @ [''0123456789'' ! (n mod 10)])"

declare show_nat.simps [simp del]

definition show_int :: "int \<Rightarrow> string" where
  "show_int i = (if i < 0 then CHR ''-'' # show_nat (nat (- i)) else show_nat (nat i))"

definition String_js :: "env \<Rightarrow> real \<Rightarrow> string" where
  "String_js env x =
     (if x = of_int \<lfloor>x\<rfloor> \<and> \<bar>x\<bar> < 2 ^ 53 then show_int \<lfloor>x\<rfloor> else Number_toString env x)"

text \<open>\<^verbatim>\<open>parseInt\<close> of a configuration value; a number is first printed, then read back.\<close>

fun parseInt_scalar :: "env \<Rightarrow> scalar \<Rightarrow> num_js" where
  "parseInt_scalar env (CStr s) = parseInt s"
| "parseInt_scalar env (CNum x) = parseInt (String_js env x)"

text \<open>\<^verbatim>\<open>x ? parseInt(x, 10) : undefined\<close>.\<close>

definition parse_bound :: "env \<Rightarrow> scalar option \<Rightarrow> num_js option" where
  "parse_bound env x =
     (case x of
        None \<Rightarrow> None
      | Some c \<Rightarrow> if truthy_scalar c then Some (parseInt_scalar env c) else None)"

definition init :: "env \<Rightarrow> (string \<rightharpoonup> string) \<Rightarrow> config \<Rightarrow> error + shop" where
  "init env credentials cfg =
     (let apiKey = credentials ''youtube_api_key'' in
      if \<not> truthy_str apiKey then Inl (Error ''YouTube API key is required.'')
      else
        (case cfg_channelId cfg of
           None \<Rightarrow> Inl (Error ''channelId is required in config.'')
         | Some ch \<Rightarrow>
             if ch = [] then Inl (Error ''channelId is required in config.'')
             else
               (case (case cfg_titleIncludes cfg of
                        None \<Rightarrow> Inr None
                      | Some pat \<Rightarrow> if pat = [] then Inr None else map_sum id Some (new_RegExp env pat)) of
                  Inl e \<Rightarrow> Inl e
                | Inr re \<Rightarrow>
                    Inr \<lparr> channelId = ch,
                          mode = (case cfg_mode cfg of
                                    None \<Rightarrow> ''metadata''
                                  | Some m \<Rightarrow> if m = [] then ''metadata'' else m),
                          noDelete = (cfg_noDelete cfg = Some True),
                          includeHeader = (cfg_includeHeader cfg \<noteq> Some False),
                          filters = \<lparr>
                            titleIncludes = re,
                            durationMoreThan = parse_bound env (cfg_durationMoreThan cfg),
                            durationLessThan = parse_bound env (cfg_durationLessThan cfg),
                            dropAfter = cfg_dropAfter cfg,
                            startDate = cfg_startDate cfg \<rparr> \<rparr>)))"

subsection \<open>Age evaluator\<close>

text \<open>\<^verbatim>\<open>s.slice(-1)\<close> and \<^verbatim>\<open>s.slice(0, -1)\<close>.\<close>

definition slice_last :: "string \<Rightarrow> string" where
  "slice_last s = (if s = [] then [] else [last s])"

definition slice_init :: "string \<Rightarrow> string" where
  "slice_init s = butlast s"

definition parseDropAfter :: "string \<Rightarrow> error + num_js" where
  "parseDropAfter d =
     (let unit = slice_last d;
          val = parseInt (slice_init d)
      in if unit = ''d'' then Inr (times_js (times_js (times_js (times_js val 24) 60) 60) 1000)
         else if unit = ''w'' then Inr (times_js (times_js (times_js (times_js (times_js val 7) 24) 60) 60) 1000)
         else if unit = ''m'' then Inr (times_js (times_js (times_js (times_js (times_js val 30) 24) 60) 60) 1000)
         else if unit = ''y'' then Inr (times_js (times_js (times_js (times_js (times_js val 365) 24) 60) 60) 1000)
         else Inl (Error (''Invalid dropAfter unit: '' @ unit)))"

text \<open>
  \<^verbatim>\<open>moment().diff(moment(publishedAt))\<close> in milliseconds; the difference with an invalid
  date is \<^verbatim>\<open>NaN\<close>.
\<close>

fun diff_js :: "int \<Rightarrow> num_js \<Rightarrow> num_js" where
  "diff_js t (Number p) = Number (t - p)"
| "diff_js t NaN = NaN"

definition shouldDropVideo :: "env \<Rightarrow> filters \<Rightarrow> num_js \<Rightarrow> error + bool" where
  "shouldDropVideo env f published =
     (case dropAfter f of
        None \<Rightarrow> Inr False
      | Some d \<Rightarrow>
          if d = [] then Inr False
          else
            (let age = diff_js (now env) published in
             case parseDropAfter d of
               Inl e \<Rightarrow> Inl e
             | Inr dropDuration \<Rightarrow> Inr (gt_js age dropDuration)))"

subsection \<open>Filter engine\<close>

text \<open>
  The predicate that \<^verbatim>\<open>applyFilters\<close> passes to \<^verbatim>\<open>videos.filter\<close>. Each of the five
  conditions is one \<^verbatim>\<open>if (...) return false\<close> of the source, in the source's order; a
  conjunct \<^verbatim>\<open>x && ...\<close> on an optional value is the \<open>case\<close> on it.
\<close>

definition title_of :: "video \<Rightarrow> string option" where
  "title_of v = (case snippet v of None \<Rightarrow> None | Some sn \<Rightarrow> title sn)"

definition published_of :: "env \<Rightarrow> video \<Rightarrow> num_js option" where
  "published_of env v =
     (case snippet v of
        None \<Rightarrow> None
      | Some sn \<Rightarrow>
          (case publishedAt sn of
             None \<Rightarrow> None
           | Some p \<Rightarrow> if p = [] then None else Some (new_Date env p)))"

definition duration_of :: "video \<Rightarrow> num_js" where
  "duration_of v =
     (case contentDetails_duration v of
        None \<Rightarrow> Number 0
      | Some d \<Rightarrow> if d = [] then Number 0 else parseDuration d)"

definition keep :: "env \<Rightarrow> filters \<Rightarrow> video \<Rightarrow> error + bool" where
  "keep env f v =
     (let ttl = title_of v;
          published = published_of env v;
          duration = duration_of v
      in if (case titleIncludes f of
               None \<Rightarrow> False
             | Some re \<Rightarrow> (case ttl of None \<Rightarrow> False | Some t \<Rightarrow> t \<noteq> [] \<and> \<not> re t))
         then Inr False
         else if (case startDate f of
               None \<Rightarrow> False
             | Some s \<Rightarrow>
                 s \<noteq> [] \<and> (case published of None \<Rightarrow> False | Some p \<Rightarrow> lt_js p (new_Date env s)))
         then Inr False
         else if (case durationMoreThan f of
               None \<Rightarrow> False
             | Some m \<Rightarrow> truthy_num m \<and> lt_js duration m)
         then Inr False
         else if (case durationLessThan f of
               None \<Rightarrow> False
             | Some m \<Rightarrow> truthy_num m \<and> gt_js duration m)
         then Inr False
         else
           (case dropAfter f of
              None \<Rightarrow> Inr True
            | Some d \<Rightarrow>
                if d = [] then Inr True
                else
                  (case published of
                     None \<Rightarrow> Inr True
                   | Some p \<Rightarrow>
                       (case shouldDropVideo env f p of
                          Inl e \<Rightarrow> Inl e
                        | Inr b \<Rightarrow> Inr (\<not> b)))))"

text \<open>\<^verbatim>\<open>videos.filter\<close>: in order, and an exception of the predicate ends the call.\<close>

fun applyFilters :: "env \<Rightarrow> filters \<Rightarrow> video list \<Rightarrow> error + video list" where
  "applyFilters env f [] = Inr []"
| "applyFilters env f (v # vs) =
     (case keep env f v of
        Inl e \<Rightarrow> Inl e
      | Inr b \<Rightarrow>
          (case applyFilters env f vs of
             Inl e \<Rightarrow> Inl e
           | Inr r \<Rightarrow> Inr (if b then v # r else r)))"

subsection \<open>Identity scheme\<close>

text \<open>
  The template \<^verbatim>\<open>`youtube-channel-${this.channelId}-${video.id}-${this.mode}`\<close>; a
  missing \<^verbatim>\<open>video.id\<close> prints as \<^verbatim>\<open>undefined\<close>.
\<close>

definition show_id :: "string option \<Rightarrow> string" where
  "show_id i = (case i of None \<Rightarrow> ''undefined'' | Some s \<Rightarrow> s)"

definition identify :: "string \<Rightarrow> string \<Rightarrow> string \<Rightarrow> string" where
  "identify ch item m = ''youtube-channel-'' @ ch @ ''-'' @ item @ ''-'' @ m"

definition fileId :: "shop \<Rightarrow> video \<Rightarrow> string" where
  "fileId st v = identify (channelId st) (show_id (vid v)) (mode st)"

subsection \<open>Content fetchers\<close>

text \<open>\<^verbatim>\<open>JSON.stringify(video.snippet)\<close> is \<^verbatim>\<open>undefined\<close> when there is no snippet.\<close>

definition getMetadataContent :: "env \<Rightarrow> video \<Rightarrow> string option" where
  "getMetadataContent env v = map_option (JSON_stringify env) (snippet v)"

text \<open>\<^verbatim>\<open>x || dflt\<close> on an optional string.\<close>

definition or_else :: "string option \<Rightarrow> string \<Rightarrow> string" where
  "or_else x dflt = (case x of None \<Rightarrow> dflt | Some s \<Rightarrow> if s = [] then dflt else s)"

definition getThumbnailContent :: "video \<Rightarrow> string" where
  "getThumbnailContent v =
     or_else (case snippet v of None \<Rightarrow> None | Some sn \<Rightarrow> thumbnails_high_url sn) []"

definition getVideoContent :: "string option \<Rightarrow> string" where
  "getVideoContent videoId = ''https://www.youtube.com/watch?v='' @ show_id videoId"

definition getAudioContent :: "string option \<Rightarrow> string" where
  "getAudioContent videoId = ''Audio extraction not yet implemented''"

text \<open>\<^verbatim>\<open>texts.join(' ')\<close>.\<close>

fun join_sp :: "string list \<Rightarrow> string" where
  "join_sp [] = []"
| "join_sp [t] = t"
| "join_sp (t # ts) = t @ '' '' @ join_sp ts"

text \<open>
  The whole body is inside \<^verbatim>\<open>try\<close>: a failure of the transcript service, and the
  \<^verbatim>\<open>RangeError\<close> of \<^verbatim>\<open>toISOString\<close> on an invalid date, both give the fallback text.
\<close>

definition getTranscriptContent :: "env \<Rightarrow> shop \<Rightarrow> video \<Rightarrow> string" where
  "getTranscriptContent env st v =
     (case fetchTranscript env (vid v) of
        Inl e \<Rightarrow> ''Transcript not available''
      | Inr transcript \<Rightarrow>
          (let transcriptText = join_sp transcript in
           if includeHeader st then
             (let ttl = or_else (title_of v) ''Unknown Title'';
                  channelName =
                    or_else (case snippet v of None \<Rightarrow> None | Some sn \<Rightarrow> channelTitle sn)
                      ''Unknown Channel'';
                  videoUrl = ''https://www.youtube.com/watch?v='' @ show_id (vid v)
              in case published_of env v of
                   Some NaN \<Rightarrow> ''Transcript not available''
                 | dt \<Rightarrow>
                     (let dateUploaded =
                            (case dt of Some (Number ms) \<Rightarrow> toISOString env ms | _ \<Rightarrow> ''Unknown Date'')
                      in ''YouTube video: '' @ ttl @ [CHR 0x0A] @ ''Video URL: '' @ videoUrl
                         @ [CHR 0x0A] @ ''Uploaded by: '' @ channelName
                         @ [CHR 0x0A] @ ''Date: '' @ dateUploaded
                         @ [CHR 0x0A] @ ''Video transcript follows:'' @ [CHR 0x0A] @ transcriptText
                         @ [CHR 0x0A] @ ''[end of video]''))
           else transcriptText))"

text \<open>The \<^verbatim>\<open>switch (this.mode)\<close> of \<^verbatim>\<open>update\<close>.\<close>

definition getContent :: "env \<Rightarrow> shop \<Rightarrow> video \<Rightarrow> error + string option" where
  "getContent env st v =
     (if mode st = ''metadata'' then Inr (getMetadataContent env v)
      else if mode st = ''thumbnail'' then Inr (Some (getThumbnailContent v))
      else if mode st = ''transcript'' then Inr (Some (getTranscriptContent env st v))
      else if mode st = ''video'' then Inr (Some (getVideoContent (vid v)))
      else if mode st = ''audio'' then Inr (Some (getAudioContent (vid v)))
      else Inl (Error (''Invalid mode: '' @ mode st)))"

subsection \<open>Reconciler\<close>

text \<open>
  The three loops of \<^verbatim>\<open>update\<close>. The first collects \<^verbatim>\<open>currentFileIds\<close> and
  \<^verbatim>\<open>newVideos\<close>; \<^verbatim>\<open>fileId in existingFiles\<close> is a lookup (every identifier starts with
  \<^verbatim>\<open>youtube-channel-\<close>, so no inherited property is ever hit).
\<close>

fun collect :: "shop \<Rightarrow> files \<Rightarrow> video list \<Rightarrow> string set \<times> video list \<Rightarrow> string set \<times> video list" where
  "collect st existingFiles [] acc = acc"
| "collect st existingFiles (v # vs) (currentFileIds, newVideos) =
     collect st existingFiles vs
       (insert (fileId st v) currentFileIds,
        if map_of existingFiles (fileId st v) \<noteq> None then newVideos else newVideos @ [v])"

text \<open>The second fetches the content of each new video; an invalid mode throws.\<close>

fun fetch_new :: "env \<Rightarrow> shop \<Rightarrow> video list \<Rightarrow> changes \<Rightarrow> error + changes" where
  "fetch_new env st [] updates = Inr updates"
| "fetch_new env st (v # vs) updates =
     (case getContent env st v of
        Inl e \<Rightarrow> Inl e
      | Inr content \<Rightarrow> fetch_new env st vs (AList.update (fileId st v) (Add, content) updates))"

text \<open>The third, \<^verbatim>\<open>for (const fileId in existingFiles)\<close>, runs over the keys.\<close>

fun mark_deleted :: "string set \<Rightarrow> string list \<Rightarrow> changes \<Rightarrow> changes" where
  "mark_deleted currentFileIds [] updates = updates"
| "mark_deleted currentFileIds (k # ks) updates =
     mark_deleted currentFileIds ks
       (if k \<notin> currentFileIds then AList.update k (Delete, None) updates else updates)"

text \<open>The body of the \<^verbatim>\<open>try\<close> block.\<close>

definition update_try :: "env \<Rightarrow> shop \<Rightarrow> files \<Rightarrow> error + changes" where
  "update_try env st existingFiles =
     (case getAllVideoDetails env of
        Inl e \<Rightarrow> Inl e
      | Inr videos \<Rightarrow>
          (case applyFilters env (filters st) videos of
             Inl e \<Rightarrow> Inl e
           | Inr filteredVideos \<Rightarrow>
               (let (currentFileIds, newVideos) = collect st existingFiles filteredVideos ({}, []) in
                case fetch_new env st newVideos [] of
                  Inl e \<Rightarrow> Inl e
                | Inr updates \<Rightarrow>
                    Inr (if \<not> noDelete st
                         then mark_deleted currentFileIds (map fst existingFiles) updates
                         else updates))))"

text \<open>
  \<^verbatim>\<open>update(lastUsed, existingFiles)\<close>; \<^verbatim>\<open>lastUsed\<close> is not read. The \<^verbatim>\<open>catch\<close> logs the
  error and returns \<^verbatim>\<open>{}\<close>.
\<close>

definition update :: "env \<Rightarrow> shop \<Rightarrow> files \<Rightarrow> changes" where
  "update env st existingFiles =
     (case update_try env st existingFiles of Inl e \<Rightarrow> [] | Inr updates \<Rightarrow> updates)"

subsection \<open>The host's side of a pass\<close>

text \<open>
  The specification's reading of what the host does with a change set: the identifiers
  added (or updated) are inserted into the prior state with the marker \<open>t\<close>, the ones
  deleted are removed. This is not code of the class.
\<close>

fun apply_changes :: "nat \<Rightarrow> changes \<Rightarrow> files \<Rightarrow> files" where
  "apply_changes t [] existingFiles = existingFiles"
| "apply_changes t ((k, (a, c)) # cs) existingFiles =
     apply_changes t cs
       (if a = Delete then AList.delete k existingFiles else AList.update k t existingFiles)"

text \<open>The filtered item set of a pass.\<close>

definition filtered :: "env \<Rightarrow> shop \<Rightarrow> error + video list" where
  "filtered env st =
     (case getAllVideoDetails env of Inl e \<Rightarrow> Inl e | Inr videos \<Rightarrow> applyFilters env (filters st) videos)"

subsection \<open>Sample inputs\<close>

text \<open>Concrete collaborators, configurations and items, used to run the model.\<close>

definition filters0 :: filters where
  "filters0 = \<lparr> titleIncludes = None, durationMoreThan = None, durationLessThan = None,
                dropAfter = None, startDate = None \<rparr>"

definition env0 :: env where
  "env0 = \<lparr> now = 1700000000000, new_Date = (\<lambda>s. NaN), new_RegExp = (\<lambda>p. Inr (\<lambda>t. False)),
             JSON_stringify = (\<lambda>sn. ''{}''), toISOString = (\<lambda>ms. ''1970-01-01T00:00:00.000Z''),
             getAllVideoDetails = Inr [], fetchTranscript = (\<lambda>i. Inr []),
             Number_toString = (\<lambda>x. ''NaN'') \<rparr>"

definition video_long :: video where
  "video_long = \<lparr> vid = Some ''dQw4w9WgXcQ'',
                   snippet = Some \<lparr> title = Some ''A tutorial'', publishedAt = Some ''2023-05-01T00:00:00Z'',
                                    channelTitle = Some ''Chan'', thumbnails_high_url = None \<rparr>,
                   contentDetails_duration = Some ''PT10M50S'' \<rparr>"

definition video_untitled :: video where
  "video_untitled = \<lparr> vid = Some ''abc12345678'',
                   snippet = Some \<lparr> title = None, publishedAt = Some ''2023-05-01T00:00:00Z'',
                                    channelTitle = Some ''Chan'', thumbnails_high_url = None \<rparr>,
                   contentDetails_duration = Some ''PT5M'' \<rparr>"

definition shop_video :: shop where
  "shop_video = \<lparr> channelId = ''UC1'', mode = ''video'', noDelete = False, includeHeader = True,
                  filters = filters0 \<rparr>"

definition env_two :: env where
  "env_two = env0\<lparr>getAllVideoDetails := Inr [video_long, video_untitled]\<rparr>"

definition files_prior :: files where
  "files_prior = [(''youtube-channel-UC1-dQw4w9WgXcQ-video'', 1),
                  (''youtube-channel-UC1-gone0000000-video'', 2)]"

definition env_down :: env where
  "env_down = env0\<lparr>getAllVideoDetails := Inl (Failure ''quotaExceeded'')\<rparr>"

definition shop_bogus :: shop where
  "shop_bogus = shop_video\<lparr>mode := ''bogus''\<rparr>"

definition filters_bad_unit :: filters where
  "filters_bad_unit = filters0\<lparr>dropAfter := Some ''5x''\<rparr>"

definition shop_bad_unit :: shop where
  "shop_bad_unit = shop_video\<lparr>filters := filters_bad_unit\<rparr>"

definition env_later :: env where
  "env_later = env_two\<lparr>now := 1800000000000\<rparr>"

definition creds0 :: "string \<rightharpoonup> string" where
  "creds0 = [''youtube_api_key'' \<mapsto> ''AIzaSyExample'']"

definition config_bad_unit :: config where
  "config_bad_unit = \<lparr> cfg_channelId = Some ''UC1'', cfg_mode = Some ''video'', cfg_noDelete = None,
       cfg_titleIncludes = None, cfg_durationMoreThan = None, cfg_durationLessThan = None,
       cfg_dropAfter = Some ''5x'', cfg_startDate = None, cfg_includeHeader = None \<rparr>"

definition video_bare :: video where
  "video_bare = \<lparr> vid = Some ''nosnippet00'', snippet = None, contentDetails_duration = None \<rparr>"

definition video_talk :: video where
  "video_talk = \<lparr> vid = Some ''talk0000001'',
                   snippet = Some \<lparr> title = Some ''A talk'', publishedAt = Some ''2023-05-01T00:00:00Z'',
                                    channelTitle = Some ''Chan'',
                                    thumbnails_high_url = Some ''https://i.ytimg.com/vi/talk0000001/hqdefault.jpg'' \<rparr>,
                   contentDetails_duration = Some ''PT5M'' \<rparr>"

definition env_talk :: env where
  "env_talk = env0\<lparr> new_Date := (\<lambda>s. Number 1682899200000),
                     JSON_stringify := (\<lambda>sn. ''json:'' @ (case title sn of None \<Rightarrow> [] | Some t \<Rightarrow> t)),
                     toISOString := (\<lambda>ms. ''2023-05-01T00:00:00.000Z''),
                     getAllVideoDetails := Inr [video_talk],
                     fetchTranscript := (\<lambda>i. Inr [''hello'', ''world'']) \<rparr>"

definition shop_mode :: "string \<Rightarrow> shop" where
  "shop_mode m = shop_video\<lparr>mode := m\<rparr>"

section \<open>Properties\<close>

subsection \<open>Duration parser\<close>

lemma digit_val_nonneg: "is_digit c \<Longrightarrow> 0 \<le> digit_val c"
  by (auto simp: is_digit_def digit_val_def)

lemma foldl_digits_nonneg:
  "\<forall>c \<in> set ds. is_digit c \<Longrightarrow> 0 \<le> a \<Longrightarrow> 0 \<le> foldl (\<lambda>a c. 10 * a + digit_val c) a ds"
proof (induction ds arbitrary: a)
  case Nil
  then show ?case by simp
next
  case (Cons d ds)
  then have "0 \<le> 10 * a + digit_val d"
    using digit_val_nonneg [of d] by simp
  with Cons show ?case by simp
qed

lemma digits_val_nonneg: "\<forall>c \<in> set ds. is_digit c \<Longrightarrow> 0 \<le> digits_val ds"
  unfolding digits_val_def by (rule foldl_digits_nonneg) simp_all

lemma digit_not_space: "is_digit c \<Longrightarrow> \<not> is_space c"
  by (auto simp: is_digit_def is_space_def)

lemma digit_not_sign: "is_digit c \<Longrightarrow> c \<noteq> CHR ''-'' \<and> c \<noteq> CHR ''+''"
  by (auto simp: is_digit_def)

lemma parseInt_digits:
  assumes "ds \<noteq> []" and "\<forall>c \<in> set ds. is_digit c" and "r = [] \<or> \<not> is_digit (hd r)"
  shows "parseInt (ds @ r) = Number (digits_val ds)"
proof -
  obtain d ds' where ds: "ds = d # ds'"
    using assms(1) by (cases ds) auto
  have d: "is_digit d" using assms(2) ds by simp
  have tw: "takeWhile is_digit (ds @ r) = ds"
    using assms(2,3) by (cases r) (simp_all add: takeWhile_append2)
  have dw: "dropWhile is_space (ds @ r) = ds @ r"
    using d digit_not_space [of d] ds by simp
  have hd: "hd (ds @ r) = d" using ds by simp
  show ?thesis
    unfolding parseInt_def dw Let_def
    using tw hd digit_not_sign [OF d] assms(1) by simp
qed

lemma group_num_opt_group:
  assumes "\<not> is_digit u"
  shows "\<exists>n. 0 \<le> n \<and> group_num (fst (opt_group u s)) = Number n"
proof (cases "takeWhile is_digit s \<noteq> [] \<and> dropWhile is_digit s \<noteq> [] \<and> hd (dropWhile is_digit s) = u")
  case True
  let ?ds = "takeWhile is_digit s"
  have all: "\<forall>c \<in> set ?ds. is_digit c"
    by (meson set_takeWhileD)
  have "parseInt (?ds @ [u]) = Number (digits_val ?ds)"
    using True all assms by (intro parseInt_digits) simp_all
  moreover have "0 \<le> digits_val ?ds"
    using all by (rule digits_val_nonneg)
  ultimately show ?thesis
    using True by (simp add: opt_group_def group_num_def)
next
  case False
  then show ?thesis
    by (auto simp: opt_group_def group_num_def Let_def)
qed

lemma not_digit_HMS: "\<not> is_digit (CHR ''H'')" "\<not> is_digit (CHR ''M'')" "\<not> is_digit (CHR ''S'')"
  by (simp_all add: is_digit_def)

lemma parseDuration_Number: "\<exists>n. 0 \<le> n \<and> parseDuration s = Number n"
proof (cases "find_PT s")
  case None
  then show ?thesis by (simp add: parseDuration_def)
next
  case (Some r0)
  obtain m1 r1 where g1: "opt_group (CHR ''H'') r0 = (m1, r1)" by force
  obtain m2 r2 where g2: "opt_group (CHR ''M'') r1 = (m2, r2)" by force
  obtain m3 r3 where g3: "opt_group (CHR ''S'') r2 = (m3, r3)" by force
  obtain h where h: "0 \<le> h" "group_num m1 = Number h"
    using group_num_opt_group [OF not_digit_HMS(1), of r0] g1 by auto
  obtain m where m: "0 \<le> m" "group_num m2 = Number m"
    using group_num_opt_group [OF not_digit_HMS(2), of r1] g2 by auto
  obtain sec where sec: "0 \<le> sec" "group_num m3 = Number sec"
    using group_num_opt_group [OF not_digit_HMS(3), of r2] g3 by auto
  have "parseDuration s = Number (h * 3600 + m * 60 + sec)"
    using Some g1 g2 g3 h m sec by (simp add: parseDuration_def)
  moreover have "0 \<le> h * 3600 + m * 60 + sec"
    using h m sec by simp
  ultimately show ?thesis by blast
qed

lemma duration_of_Number: "\<exists>n. 0 \<le> n \<and> duration_of v = Number n"
  using parseDuration_Number by (auto simp: duration_of_def split: option.splits)

lemmas parse_defs = parseDuration_def opt_group_def group_num_def parseInt_def
  is_digit_def is_space_def digits_val_def digit_val_def

lemma foldl_decimal:
  "foldl (\<lambda>a c. 10 * a + digit_val c) a ds = a * 10 ^ length ds + decimal ds"
proof (induction ds arbitrary: a)
  case Nil
  then show ?case by (simp add: decimal_def)
next
  case (Cons c ds)
  have "decimal (c # ds) = digit_val c * 10 ^ length ds + decimal ds"
    by (simp add: decimal_def sum.lessThan_Suc_shift del: sum.lessThan_Suc)
  then show ?case using Cons.IH [of "10 * a + digit_val c"]
    by (simp add: algebra_simps)
qed

lemma digits_val_decimal: "digits_val ds = decimal ds"
  by (simp add: digits_val_def foldl_decimal)

lemma find_PT_Some_split: "find_PT s = Some r \<Longrightarrow> \<exists>a. s = a @ ''PT'' @ r"
proof (induction s rule: find_PT.induct)
  case (1 a b r')
  show ?case
  proof (cases "a = CHR ''P'' \<and> b = CHR ''T''")
    case True
    then have "r = r'" using "1.prems" by simp
    then have "a # b # r' = [] @ ''PT'' @ r" using True by simp
    then show ?thesis by blast
  next
    case False
    then have "find_PT (b # r') = Some r" using "1.prems" by auto
    with "1.IH" False obtain p where "b # r' = p @ ''PT'' @ r" by blast
    then have "a # b # r' = (a # p) @ ''PT'' @ r" by simp
    then show ?thesis by blast
  qed
qed simp_all

lemma find_PT_occurs: "find_PT (a @ ''PT'' @ b) \<noteq> None"
proof (induction a)
  case Nil
  then show ?case by simp
next
  case (Cons c a)
  then show ?case by (cases a) auto
qed

lemma find_PT_None_iff: "find_PT s = None \<longleftrightarrow> \<not> (\<exists>a b. s = a @ ''PT'' @ b)"
proof
  assume "find_PT s = None"
  then show "\<not> (\<exists>a b. s = a @ ''PT'' @ b)" using find_PT_occurs by metis
next
  assume "\<not> (\<exists>a b. s = a @ ''PT'' @ b)"
  then show "find_PT s = None" using find_PT_Some_split [of s] by (cases "find_PT s") auto
qed

lemma find_PT_leftmost:
  "\<not> (\<exists>a b. pre @ ''P'' = a @ ''PT'' @ b) \<Longrightarrow> find_PT (pre @ ''PT'' @ r) = Some r"
proof (induction pre)
  case Nil
  then show ?case by simp
next
  case (Cons c pre)
  have no: "\<not> (\<exists>a b. pre @ ''P'' = a @ ''PT'' @ b)"
  proof
    assume "\<exists>a b. pre @ ''P'' = a @ ''PT'' @ b"
    then obtain a b where "pre @ ''P'' = a @ ''PT'' @ b" by blast
    then have "(c # pre) @ ''P'' = (c # a) @ ''PT'' @ b" by simp
    then show False using Cons.prems by blast
  qed
  have first: "\<not> (c = CHR ''P'' \<and> hd (pre @ ''PT'' @ r) = CHR ''T'')"
  proof
    assume a: "c = CHR ''P'' \<and> hd (pre @ ''PT'' @ r) = CHR ''T''"
    then obtain pre' where "pre = CHR ''T'' # pre'" by (cases pre) auto
    then have "(c # pre) @ ''P'' = [] @ ''PT'' @ (pre' @ ''P'')" using a by simp
    then show False using Cons.prems by blast
  qed
  obtain x xs where shape: "pre @ ''PT'' @ r = x # xs" by (cases pre) auto
  then have "find_PT (c # pre @ ''PT'' @ r) = find_PT (pre @ ''PT'' @ r)"
    using first by auto
  then show ?case using Cons.IH [OF no] by simp
qed


lemma takeWhile_digits_stop:
  assumes "\<forall>c \<in> set ds. is_digit c" and "\<not> is_digit c0"
  shows "takeWhile is_digit (ds @ c0 # r) = ds" and "dropWhile is_digit (ds @ c0 # r) = c0 # r"
  using assms by (simp_all add: takeWhile_append2 dropWhile_append2)

lemma opt_group_present:
  assumes "ds \<noteq> []" and "\<forall>c \<in> set ds. is_digit c" and "\<not> is_digit c0"
  shows "opt_group u (ds @ c0 # r) = (if c0 = u then (Some (ds @ [u]), r) else (None, ds @ c0 # r))"
  using assms takeWhile_digits_stop [OF assms(2,3), of r]
  by (simp add: opt_group_def)

lemma opt_group_blocked:
  assumes "\<not> (\<exists>ds r. x = ds @ u # r \<and> ds \<noteq> [] \<and> (\<forall>c \<in> set ds. is_digit c))"
  shows "opt_group u x = (None, x)"
proof -
  have "\<not> (takeWhile is_digit x \<noteq> [] \<and> dropWhile is_digit x \<noteq> [] \<and> hd (dropWhile is_digit x) = u)"
  proof
    assume a: "takeWhile is_digit x \<noteq> [] \<and> dropWhile is_digit x \<noteq> [] \<and> hd (dropWhile is_digit x) = u"
    then have "dropWhile is_digit x = u # tl (dropWhile is_digit x)" by (cases "dropWhile is_digit x") auto
    then have "x = takeWhile is_digit x @ u # tl (dropWhile is_digit x)"
      using takeWhile_dropWhile_id [of is_digit x] by simp
    moreover have "\<forall>c \<in> set (takeWhile is_digit x). is_digit c" by (meson set_takeWhileD)
    ultimately show False using assms a by blast
  qed
  then show ?thesis by (auto simp: opt_group_def Let_def)
qed

lemma group_num_Some:
  assumes "ds \<noteq> []" and "\<forall>c \<in> set ds. is_digit c" and "\<not> is_digit u"
  shows "group_num (Some (ds @ [u])) = Number (decimal ds)"
  using parseInt_digits [OF assms(1,2), of "[u]"] assms
  by (simp add: group_num_def digits_val_decimal)

lemma decimal_Nil: "decimal [] = 0"
  by (simp add: decimal_def)

text \<open>One optional component \<open>ds\<close> with its letter \<open>u\<close>, in front of \<open>r\<close>.\<close>

lemma opt_group_own:
  assumes "ds \<noteq> []" and "\<forall>c \<in> set ds. is_digit c" and "\<not> is_digit u"
  shows "opt_group u (ds @ [u] @ r) = (Some (ds @ [u]), r)"
  using opt_group_present [OF assms, of u r] by simp

lemma opt_group_other:
  assumes "ds \<noteq> []" and "\<forall>c \<in> set ds. is_digit c" and "\<not> is_digit u'" and "u' \<noteq> u"
  shows "opt_group u (ds @ [u'] @ r) = (None, ds @ [u'] @ r)"
  using opt_group_present [OF assms(1-3), of u r] assms(4) by simp

lemma parseDuration_groups:
  assumes pt: "find_PT x = Some r0"
    and g1: "opt_group (CHR ''H'') r0 = (m1, r1)"
    and g2: "opt_group (CHR ''M'') r1 = (m2, r2)"
    and g3: "opt_group (CHR ''S'') r2 = (m3, r3)"
  shows "parseDuration x =
           plus_js (plus_js (times_js (group_num m1) 3600) (times_js (group_num m2) 60)) (group_num m3)"
  using assms by (simp add: parseDuration_def)

lemma parseDuration_components:
  assumes lm: "\<not> (\<exists>a b. pre @ ''P'' = a @ ''PT'' @ b)"
    and dh: "\<forall>c \<in> set h. is_digit c" and dm: "\<forall>c \<in> set m. is_digit c"
    and ds: "\<forall>c \<in> set sec. is_digit c"
    and tl: "\<not> (\<exists>ds u r. tail = ds @ u # r \<and> ds \<noteq> [] \<and> (\<forall>c \<in> set ds. is_digit c)
                  \<and> u \<in> (if sec \<noteq> [] then {}
                          else if m \<noteq> [] then {CHR ''S''}
                          else if h \<noteq> [] then {CHR ''M'', CHR ''S''}
                          else {CHR ''H'', CHR ''M'', CHR ''S''}))"
  shows "parseDuration (pre @ ''PT'' @ (if h = [] then [] else h @ ''H'')
                          @ (if m = [] then [] else m @ ''M'')
                          @ (if sec = [] then [] else sec @ ''S'') @ tail)
         = Number (decimal h * 3600 + decimal m * 60 + decimal sec)"
proof -
  let ?S = "(if sec = [] then [] else sec @ ''S'') @ tail"
  let ?M = "(if m = [] then [] else m @ ''M'') @ ?S"
  let ?H = "(if h = [] then [] else h @ ''H'') @ ?M"
  have pt: "find_PT (pre @ ''PT'' @ ?H) = Some ?H"
    by (rule find_PT_leftmost [OF lm])
  have blockS: "sec = [] \<Longrightarrow> opt_group (CHR ''S'') tail = (None, tail)"
    using tl by (intro opt_group_blocked) (auto split: if_splits)
  have blockM: "sec = [] \<Longrightarrow> m = [] \<Longrightarrow> opt_group (CHR ''M'') tail = (None, tail)"
    using tl by (intro opt_group_blocked) (auto split: if_splits)
  have blockH: "sec = [] \<Longrightarrow> m = [] \<Longrightarrow> h = [] \<Longrightarrow> opt_group (CHR ''H'') tail = (None, tail)"
    using tl by (intro opt_group_blocked) (auto split: if_splits)
  have g3: "opt_group (CHR ''S'') ?S = ((if sec = [] then None else Some (sec @ ''S'')), tail)"
    using blockS opt_group_own [OF _ ds not_digit_HMS(3), of tail] by simp
  have skipM_S: "opt_group (CHR ''M'') (sec @ ''S'' @ tail) = (None, sec @ ''S'' @ tail)" if "sec \<noteq> []"
    using opt_group_other [OF that ds not_digit_HMS(3), of "CHR ''M''" tail] by simp
  have skipH_S: "opt_group (CHR ''H'') (sec @ ''S'' @ tail) = (None, sec @ ''S'' @ tail)" if "sec \<noteq> []"
    using opt_group_other [OF that ds not_digit_HMS(3), of "CHR ''H''" tail] by simp
  have skipH_M: "opt_group (CHR ''H'') (m @ ''M'' @ r) = (None, m @ ''M'' @ r)" if "m \<noteq> []" for r
    using opt_group_other [OF that dm not_digit_HMS(2), of "CHR ''H''" r] by simp
  have g2: "opt_group (CHR ''M'') ?M = ((if m = [] then None else Some (m @ ''M'')), ?S)"
  proof (cases "m = []")
    case True
    then show ?thesis using blockM skipM_S by (cases "sec = []") simp_all
  next
    case False
    then show ?thesis using opt_group_own [OF False dm not_digit_HMS(2), of ?S] by simp
  qed
  have g1: "opt_group (CHR ''H'') ?H = ((if h = [] then None else Some (h @ ''H'')), ?M)"
  proof (cases "h = []")
    case True
    show ?thesis
    proof (cases "m = []")
      case m: True
      then show ?thesis using True blockH skipH_S by (cases "sec = []") simp_all
    next
      case m: False
      then show ?thesis using True skipH_M [OF m, of ?S] by simp
    qed
  next
    case False
    then show ?thesis using opt_group_own [OF False dh not_digit_HMS(1), of ?M] by simp
  qed
  have n1: "group_num (if h = [] then None else Some (h @ ''H'')) = Number (decimal h)"
    using group_num_Some [OF _ dh not_digit_HMS(1)] by (simp add: group_num_def decimal_Nil)
  have n2: "group_num (if m = [] then None else Some (m @ ''M'')) = Number (decimal m)"
    using group_num_Some [OF _ dm not_digit_HMS(2)] by (simp add: group_num_def decimal_Nil)
  have n3: "group_num (if sec = [] then None else Some (sec @ ''S'')) = Number (decimal sec)"
    using group_num_Some [OF _ ds not_digit_HMS(3)] by (simp add: group_num_def decimal_Nil)
  show ?thesis
    unfolding parseDuration_groups [OF pt g1 g2 g3] n1 n2 n3 by simp
qed

lemma parseDuration_no_PT: "\<not> (\<exists>a b. s = a @ ''PT'' @ b) \<Longrightarrow> parseDuration s = Number 0"
  using find_PT_None_iff [of s] by (simp add: parseDuration_def)


text \<open>
  Claim C7. The duration parser gives the total seconds. A string without \<^verbatim>\<open>PT\<close> gives 0.
  Otherwise the string is read from its leftmost \<^verbatim>\<open>PT\<close>: with the components \<open>h\<close>, \<open>m\<close>
  and \<open>sec\<close> (strings of decimal digits, each followed by its letter H, M, S when it is
  not empty, and empty when the component is missing) and a rest that does not begin
  with a further component, the result is \<open>h * 3600 + m * 60 + sec\<close>, a missing component
  counting as 0, as long as this total is below \<open>2 ^ 53\<close>, the range in which the
  numbers of the code are exact. So \<^verbatim>\<open>PT1H2M3S\<close> gives 3723, \<^verbatim>\<open>PT5M\<close> gives 300,
  \<^verbatim>\<open>PT10M50S\<close> gives 650, \<^verbatim>\<open>PT\<close> gives 0 and \<^verbatim>\<open>garbage\<close> gives 0. The result is never
  \<^verbatim>\<open>NaN\<close>, and the parser raises nothing.
\<close>

theorem parseDuration_total_seconds:
  "parseDuration ''PT1H2M3S'' = Number 3723
   \<and> parseDuration ''PT5M'' = Number 300
   \<and> parseDuration ''PT'' = Number 0
   \<and> parseDuration ''garbage'' = Number 0
   \<and> parseDuration ''PT10M50S'' = Number 650
   \<and> (\<not> (\<exists>a b. s = a @ ''PT'' @ b) \<longrightarrow> parseDuration s = Number 0)
   \<and> (\<not> (\<exists>a b. pre @ ''P'' = a @ ''PT'' @ b)
        \<and> (\<forall>c \<in> set h. is_digit c) \<and> (\<forall>c \<in> set m. is_digit c) \<and> (\<forall>c \<in> set sec. is_digit c)
        \<and> \<not> (\<exists>ds u r. tail = ds @ u # r \<and> ds \<noteq> [] \<and> (\<forall>c \<in> set ds. is_digit c)
                  \<and> u \<in> (if sec \<noteq> [] then {}
                          else if m \<noteq> [] then {CHR ''S''}
                          else if h \<noteq> [] then {CHR ''M'', CHR ''S''}
                          else {CHR ''H'', CHR ''M'', CHR ''S''}))
        \<and> decimal h * 3600 + decimal m * 60 + decimal sec < 2 ^ 53
        \<longrightarrow> parseDuration (pre @ ''PT'' @ (if h = [] then [] else h @ ''H'')
                              @ (if m = [] then [] else m @ ''M'')
                              @ (if sec = [] then [] else sec @ ''S'') @ tail)
            = Number (decimal h * 3600 + decimal m * 60 + decimal sec))
   \<and> parseDuration t \<noteq> NaN"
proof -
  have "parseDuration ''PT1H2M3S'' = Number 3723" by (simp add: parse_defs)
  moreover have "parseDuration ''PT5M'' = Number 300" by (simp add: parse_defs)
  moreover have "parseDuration ''PT'' = Number 0" by (simp add: parse_defs)
  moreover have "parseDuration ''garbage'' = Number 0" by (simp add: parse_defs)
  moreover have "parseDuration ''PT10M50S'' = Number 650" by (simp add: parse_defs)
  moreover have "parseDuration t \<noteq> NaN" using parseDuration_Number [of t] by auto
  ultimately show ?thesis
    using parseDuration_no_PT [of s] parseDuration_components [of pre h m sec tail]
    by blast
qed

lemma no_PT_sample: "\<not> (\<exists>a b. ''xxP'' = a @ ''PT'' @ b)" "\<not> (\<exists>a b. ''P1DT2H'' = a @ ''PT'' @ b)"
  using find_PT_None_iff [of "''xxP''"] find_PT_None_iff [of "''P1DT2H''"] by simp_all

lemma digits_sample: "\<forall>c \<in> set ''10''. is_digit c" "\<forall>c \<in> set ''50''. is_digit c"
  "\<forall>c \<in> set ''2''. is_digit c" "\<forall>c \<in> set []. is_digit c"
  by (simp_all add: is_digit_def)

lemma decimal_sample: "decimal ''10'' = 10" "decimal ''50'' = 50" "decimal ''2'' = 2"
  by (simp_all add: digits_val_decimal [symmetric] digits_val_def digit_val_def)

lemma tail_sample:
  "\<not> (\<exists>ds u r. ''30X'' = ds @ u # r \<and> ds \<noteq> [] \<and> (\<forall>c \<in> set ds. is_digit c)
          \<and> u \<in> {CHR ''M'', CHR ''S''})"
  by (auto simp: append_eq_Cons_conv Cons_eq_append_conv)

theorem parseDuration_total_seconds_witness:
  "parseDuration ''P1DT2H'' = Number 0
   \<and> parseDuration ''xxPT10H50S and more'' = Number 36050
   \<and> parseDuration ''PT2H30X'' = Number 7200"
proof -
  have a: "parseDuration ''P1DT2H'' = Number 0"
    using parseDuration_total_seconds [of "''P1DT2H''"] no_PT_sample(2) by blast
  have "parseDuration (''xx'' @ ''PT'' @ (if ''10'' = [] then [] else ''10'' @ ''H'')
                              @ (if ([]::string) = [] then [] else [] @ ''M'')
                              @ (if ''50'' = [] then [] else ''50'' @ ''S'') @ '' and more'')
            = Number (decimal ''10'' * 3600 + decimal [] * 60 + decimal ''50'')"
    using parseDuration_total_seconds [where pre = "''xx''" and h = "''10''" and m = "[]"
        and sec = "''50''" and tail = "'' and more''"]
      no_PT_sample(1) digits_sample by (simp add: decimal_sample decimal_Nil)
  then have b: "parseDuration ''xxPT10H50S and more'' = Number 36050"
    by (simp add: decimal_sample decimal_Nil)
  have "parseDuration ([] @ ''PT'' @ (if ''2'' = [] then [] else ''2'' @ ''H'')
                              @ (if ([]::string) = [] then [] else [] @ ''M'')
                              @ (if ([]::string) = [] then [] else [] @ ''S'') @ ''30X'')
            = Number (decimal ''2'' * 3600 + decimal [] * 60 + decimal [])"
    using parseDuration_total_seconds [where pre = "[]" and h = "''2''" and m = "[]"
        and sec = "[]" and tail = "''30X''"]
      find_PT_None_iff [of "''P''"] digits_sample tail_sample
    by (simp add: decimal_sample decimal_Nil)
  then have c: "parseDuration ''PT2H30X'' = Number 7200"
    by (simp add: decimal_sample decimal_Nil)
  show ?thesis using a b c by simp
qed


lemma find_PT_Some_leftmost:
  "find_PT s = Some r \<Longrightarrow> \<exists>pre. s = pre @ ''PT'' @ r \<and> \<not> (\<exists>a b. pre @ ''P'' = a @ ''PT'' @ b)"
proof (induction s rule: find_PT.induct)
  case (1 a b r')
  show ?case
  proof (cases "a = CHR ''P'' \<and> b = CHR ''T''")
    case True
    then have "a # b # r' = [] @ ''PT'' @ r" using "1.prems" by simp
    moreover have "\<not> (\<exists>x y. [] @ ''P'' = x @ ''PT'' @ y)" by simp
    ultimately show ?thesis by blast
  next
    case False
    then have "find_PT (b # r') = Some r" using "1.prems" by auto
    with "1.IH" False obtain p where p: "b # r' = p @ ''PT'' @ r"
      and np: "\<not> (\<exists>x y. p @ ''P'' = x @ ''PT'' @ y)" by blast
    have "\<not> (\<exists>x y. (a # p) @ ''P'' = x @ ''PT'' @ y)"
    proof
      assume "\<exists>x y. (a # p) @ ''P'' = x @ ''PT'' @ y"
      then obtain x y where xy: "(a # p) @ ''P'' = x @ ''PT'' @ y" by blast
      show False
      proof (cases x)
        case Nil
        then have ap: "a = CHR ''P''" and t: "p @ ''P'' = CHR ''T'' # y" using xy by simp_all
        from t obtain p' where "p = CHR ''T'' # p'" by (cases p) auto
        then have "b = CHR ''T''" using p by simp
        then show False using False ap by simp
      next
        case (Cons c x')
        then have "p @ ''P'' = x' @ ''PT'' @ y" using xy by simp
        then show False using np by blast
      qed
    qed
    moreover have "a # b # r' = (a # p) @ ''PT'' @ r" using p by simp
    ultimately show ?thesis by blast
  qed
qed simp_all

lemma opt_group_result:
  assumes "\<not> is_digit u"
  shows "(\<exists>ds r. ds \<noteq> [] \<and> (\<forall>c \<in> set ds. is_digit c) \<and> x = ds @ [u] @ r
            \<and> opt_group u x = (Some (ds @ [u]), r))
         \<or> (opt_group u x = (None, x)
            \<and> \<not> (\<exists>ds r. x = ds @ u # r \<and> ds \<noteq> [] \<and> (\<forall>c \<in> set ds. is_digit c)))"
proof (cases "\<exists>ds r. x = ds @ u # r \<and> ds \<noteq> [] \<and> (\<forall>c \<in> set ds. is_digit c)")
  case True
  then obtain ds r where x: "x = ds @ u # r" and ne: "ds \<noteq> []" and dg: "\<forall>c \<in> set ds. is_digit c"
    by blast
  have "opt_group u x = (Some (ds @ [u]), r)"
    unfolding x using opt_group_present [OF ne dg assms, of u r] by simp
  then show ?thesis using x ne dg by auto
next
  case False
  then show ?thesis using opt_group_blocked [of x u] by blast
qed

text \<open>
  Every string that contains \<^verbatim>\<open>PT\<close> has the form that the general statement of claim C7
  is about, so that statement and the one on strings without \<^verbatim>\<open>PT\<close> cover every input.
\<close>

lemma duration_string_form:
  assumes "\<exists>a b. s = a @ ''PT'' @ b"
  shows "\<exists>pre h m sec tail.
           s = pre @ ''PT'' @ (if h = [] then [] else h @ ''H'')
                 @ (if m = [] then [] else m @ ''M'')
                 @ (if sec = [] then [] else sec @ ''S'') @ tail
           \<and> \<not> (\<exists>a b. pre @ ''P'' = a @ ''PT'' @ b)
           \<and> (\<forall>c \<in> set h. is_digit c) \<and> (\<forall>c \<in> set m. is_digit c) \<and> (\<forall>c \<in> set sec. is_digit c)
           \<and> \<not> (\<exists>ds u r. tail = ds @ u # r \<and> ds \<noteq> [] \<and> (\<forall>c \<in> set ds. is_digit c)
                  \<and> u \<in> (if sec \<noteq> [] then {}
                          else if m \<noteq> [] then {CHR ''S''}
                          else if h \<noteq> [] then {CHR ''M'', CHR ''S''}
                          else {CHR ''H'', CHR ''M'', CHR ''S''}))"
proof -
  from assms obtain r0 where "find_PT s = Some r0"
    using find_PT_None_iff [of s] by (cases "find_PT s") auto
  then obtain pre where s: "s = pre @ ''PT'' @ r0"
    and lm: "\<not> (\<exists>a b. pre @ ''P'' = a @ ''PT'' @ b)"
    using find_PT_Some_leftmost by blast
  obtain h r1 where h: "\<forall>c \<in> set h. is_digit c" "r0 = (if h = [] then [] else h @ ''H'') @ r1"
    "h = [] \<longrightarrow> \<not> (\<exists>ds r. r1 = ds @ CHR ''H'' # r \<and> ds \<noteq> [] \<and> (\<forall>c \<in> set ds. is_digit c))"
  proof -
    from opt_group_result [OF not_digit_HMS(1), of r0]
    show ?thesis
    proof
      assume "\<exists>ds r. ds \<noteq> [] \<and> (\<forall>c \<in> set ds. is_digit c) \<and> r0 = ds @ ''H'' @ r
                \<and> opt_group (CHR ''H'') r0 = (Some (ds @ ''H''), r)"
      then obtain ds r where "ds \<noteq> []" "\<forall>c \<in> set ds. is_digit c" "r0 = ds @ ''H'' @ r" by blast
      then show ?thesis using that [of ds r] by simp
    next
      assume "opt_group (CHR ''H'') r0 = (None, r0)
                \<and> \<not> (\<exists>ds r. r0 = ds @ CHR ''H'' # r \<and> ds \<noteq> [] \<and> (\<forall>c \<in> set ds. is_digit c))"
      then show ?thesis using that [of "[]" r0] by simp
    qed
  qed
  obtain m r2 where m: "\<forall>c \<in> set m. is_digit c" "r1 = (if m = [] then [] else m @ ''M'') @ r2"
    "m = [] \<longrightarrow> \<not> (\<exists>ds r. r2 = ds @ CHR ''M'' # r \<and> ds \<noteq> [] \<and> (\<forall>c \<in> set ds. is_digit c))"
  proof -
    from opt_group_result [OF not_digit_HMS(2), of r1]
    show ?thesis
    proof
      assume "\<exists>ds r. ds \<noteq> [] \<and> (\<forall>c \<in> set ds. is_digit c) \<and> r1 = ds @ ''M'' @ r
                \<and> opt_group (CHR ''M'') r1 = (Some (ds @ ''M''), r)"
      then obtain ds r where "ds \<noteq> []" "\<forall>c \<in> set ds. is_digit c" "r1 = ds @ ''M'' @ r" by blast
      then show ?thesis using that [of ds r] by simp
    next
      assume "opt_group (CHR ''M'') r1 = (None, r1)
                \<and> \<not> (\<exists>ds r. r1 = ds @ CHR ''M'' # r \<and> ds \<noteq> [] \<and> (\<forall>c \<in> set ds. is_digit c))"
      then show ?thesis using that [of "[]" r1] by simp
    qed
  qed
  obtain sec tail where sec: "\<forall>c \<in> set sec. is_digit c" "r2 = (if sec = [] then [] else sec @ ''S'') @ tail"
    "sec = [] \<longrightarrow> \<not> (\<exists>ds r. tail = ds @ CHR ''S'' # r \<and> ds \<noteq> [] \<and> (\<forall>c \<in> set ds. is_digit c))"
  proof -
    from opt_group_result [OF not_digit_HMS(3), of r2]
    show ?thesis
    proof
      assume "\<exists>ds r. ds \<noteq> [] \<and> (\<forall>c \<in> set ds. is_digit c) \<and> r2 = ds @ ''S'' @ r
                \<and> opt_group (CHR ''S'') r2 = (Some (ds @ ''S''), r)"
      then obtain ds r where "ds \<noteq> []" "\<forall>c \<in> set ds. is_digit c" "r2 = ds @ ''S'' @ r" by blast
      then show ?thesis using that [of ds r] by simp
    next
      assume "opt_group (CHR ''S'') r2 = (None, r2)
                \<and> \<not> (\<exists>ds r. r2 = ds @ CHR ''S'' # r \<and> ds \<noteq> [] \<and> (\<forall>c \<in> set ds. is_digit c))"
      then show ?thesis using that [of "[]" r2] by simp
    qed
  qed
  have form: "s = pre @ ''PT'' @ (if h = [] then [] else h @ ''H'')
                 @ (if m = [] then [] else m @ ''M'')
                 @ (if sec = [] then [] else sec @ ''S'') @ tail"
    using s h(2) m(2) sec(2) by simp
  have tl: "\<not> (\<exists>ds u r. tail = ds @ u # r \<and> ds \<noteq> [] \<and> (\<forall>c \<in> set ds. is_digit c)
                  \<and> u \<in> (if sec \<noteq> [] then {}
                          else if m \<noteq> [] then {CHR ''S''}
                          else if h \<noteq> [] then {CHR ''M'', CHR ''S''}
                          else {CHR ''H'', CHR ''M'', CHR ''S''}))"
  proof (cases "sec = []")
    case False
    then show ?thesis by simp
  next
    case s0: True
    then have r2: "r2 = tail" using sec(2) by simp
    show ?thesis
    proof (cases "m = []")
      case False
      then show ?thesis using s0 sec(3) by auto
    next
      case m0: True
      then have r1: "r1 = tail" using m(2) r2 by simp
      show ?thesis
      proof (cases "h = []")
        case False
        then show ?thesis using s0 m0 sec(3) m(3) r2 by auto
      next
        case True
        then show ?thesis using s0 m0 sec(3) m(3) h(3) r2 r1 by auto
      qed
    qed
  qed
  show ?thesis using form lm h(1) m(1) sec(1) tl by blast
qed

subsection \<open>Age evaluator\<close>

lemma parseDropAfter_unit:
  assumes "parseInt ds = Number n" and "u \<in> set ''dwmy''"
  shows "parseDropAfter (ds @ [u]) =
           Inr (Number (n * (if u = CHR ''d'' then 86400000
                             else if u = CHR ''w'' then 7 * 86400000
                             else if u = CHR ''m'' then 30 * 86400000
                             else 365 * 86400000)))"
  using assms by (auto simp: parseDropAfter_def slice_last_def slice_init_def)

text \<open>
  Claim C6. For an expiry expression made of an integer \<open>n\<close> (as \<^verbatim>\<open>parseInt\<close> reads it)
  and a unit among d, w, m, y, an item published at \<open>p\<close> is reported expired exactly when
  the elapsed milliseconds \<open>now - p\<close> are strictly greater than \<open>n\<close> times the unit's
  constant (86400000 for d, 7, 30 and 365 times that for w, m and y). With the item
  published 400 days before now, \<^verbatim>\<open>1y\<close> gives expired and \<^verbatim>\<open>2y\<close> gives not expired.
\<close>

theorem shouldDropVideo_threshold:
  "(dropAfter f = Some (ds @ [u]) \<and> parseInt ds = Number n \<and> u \<in> set ''dwmy''
      \<longrightarrow> shouldDropVideo env f (Number p) =
            Inr (now env - p > n * (if u = CHR ''d'' then 86400000
                                    else if u = CHR ''w'' then 7 * 86400000
                                    else if u = CHR ''m'' then 30 * 86400000
                                    else 365 * 86400000)))
   \<and> shouldDropVideo (env\<lparr>now := T\<rparr>) (f\<lparr>dropAfter := Some ''1y''\<rparr>) (Number (T - 400 * 86400000))
       = Inr True
   \<and> shouldDropVideo (env\<lparr>now := T\<rparr>) (f\<lparr>dropAfter := Some ''2y''\<rparr>) (Number (T - 400 * 86400000))
       = Inr False"
proof -
  have general: "shouldDropVideo env f (Number p) =
            Inr (now env - p > n * (if u = CHR ''d'' then 86400000
                                    else if u = CHR ''w'' then 7 * 86400000
                                    else if u = CHR ''m'' then 30 * 86400000
                                    else 365 * 86400000))"
    if "dropAfter f = Some (ds @ [u])" "parseInt ds = Number n" "u \<in> set ''dwmy''"
    using that parseDropAfter_unit [of ds n u]
    by (simp add: shouldDropVideo_def)
  have one: "parseInt ''1'' = Number 1" and two: "parseInt ''2'' = Number 2"
    by (simp_all add: parse_defs)
  have y1: "parseDropAfter ''1y'' = Inr (Number (1 * 365 * 86400000))"
    using parseDropAfter_unit [OF one, of "CHR ''y''"] by simp
  have y2: "parseDropAfter ''2y'' = Inr (Number (2 * 365 * 86400000))"
    using parseDropAfter_unit [OF two, of "CHR ''y''"] by simp
  have ex1: "shouldDropVideo (env\<lparr>now := T\<rparr>) (f\<lparr>dropAfter := Some ''1y''\<rparr>) (Number (T - 400 * 86400000))
       = Inr True"
    by (simp add: shouldDropVideo_def y1)
  have ex2: "shouldDropVideo (env\<lparr>now := T\<rparr>) (f\<lparr>dropAfter := Some ''2y''\<rparr>) (Number (T - 400 * 86400000))
       = Inr False"
    by (simp add: shouldDropVideo_def y2)
  show ?thesis using general ex1 ex2 by blast
qed

theorem shouldDropVideo_threshold_witness:
  "dropAfter (filters0\<lparr>dropAfter := Some ''3w''\<rparr>) = Some (''3'' @ [CHR ''w''])
   \<and> parseInt ''3'' = Number 3 \<and> CHR ''w'' \<in> set ''dwmy''
   \<and> shouldDropVideo env0 (filters0\<lparr>dropAfter := Some ''3w''\<rparr>) (Number 1698000000000) = Inr True"
proof -
  have h: "dropAfter (filters0\<lparr>dropAfter := Some ''3w''\<rparr>) = Some (''3'' @ [CHR ''w''])
     \<and> parseInt ''3'' = Number 3 \<and> CHR ''w'' \<in> set ''dwmy''"
    by (simp add: parse_defs)
  from shouldDropVideo_threshold [of "filters0\<lparr>dropAfter := Some ''3w''\<rparr>" "''3''" "CHR ''w''" 3 env0 1698000000000]
  have "shouldDropVideo env0 (filters0\<lparr>dropAfter := Some ''3w''\<rparr>) (Number 1698000000000)
        = Inr (now env0 - 1698000000000 > 3 * (7 * 86400000))"
    using h by simp
  then show ?thesis using h by (simp add: env0_def)
qed

subsection \<open>Filter engine\<close>

lemma keep_min_above_max:
  assumes "durationMoreThan f = Some (Number a)" and "durationLessThan f = Some (Number b)"
    and "0 < b" and "b < a"
  shows "keep env f v = Inr False"
proof -
  obtain d where d: "duration_of v = Number d"
    using duration_of_Number [of v] by blast
  have "d < a \<or> d > b" using assms(4) by linarith
  moreover have "a \<noteq> 0" "b \<noteq> 0" using assms(3,4) by simp_all
  ultimately show ?thesis
    using assms(1,2) d by (auto simp: keep_def Let_def)
qed

lemma applyFilters_all_excluded:
  "(\<And>v. keep env f v = Inr False) \<Longrightarrow> applyFilters env f vs = Inr []"
  by (induction vs) simp_all

text \<open>
  Claim C9. When a minimum and a maximum duration are both configured, both positive,
  and the minimum is greater than the maximum, the filter engine excludes every item:
  the predicate returns false for each item, whatever its title, publish date and
  duration, without raising, and \<^verbatim>\<open>applyFilters\<close> returns the empty list.
\<close>

theorem min_above_max_excludes_all:
  assumes "durationMoreThan f = Some (Number a)" and "durationLessThan f = Some (Number b)"
    and "0 < b" and "b < a"
  shows "keep env f v = Inr False \<and> applyFilters env f vs = Inr []"
  using keep_min_above_max [OF assms] applyFilters_all_excluded [of env f vs]
  by simp

theorem min_above_max_excludes_all_witness:
  "durationMoreThan (filters0\<lparr>durationMoreThan := Some (Number 600), durationLessThan := Some (Number 300)\<rparr>)
     = Some (Number 600)
   \<and> durationLessThan (filters0\<lparr>durationMoreThan := Some (Number 600), durationLessThan := Some (Number 300)\<rparr>)
     = Some (Number 300)
   \<and> (0::int) < 300 \<and> (300::int) < 600
   \<and> keep env0 (filters0\<lparr>durationMoreThan := Some (Number 600), durationLessThan := Some (Number 300)\<rparr>)
        video_long = Inr False
   \<and> applyFilters env0 (filters0\<lparr>durationMoreThan := Some (Number 600), durationLessThan := Some (Number 300)\<rparr>)
        [video_long] = Inr []"
  using min_above_max_excludes_all [where f = "filters0\<lparr>durationMoreThan := Some (Number 600), durationLessThan := Some (Number 300)\<rparr>"
      and a = 600 and b = 300 and env = env0 and v = video_long and vs = "[video_long]"]
  by simp

lemma keep_zero_less: "keep env (f\<lparr>durationLessThan := Some (Number 0)\<rparr>) v = keep env (f\<lparr>durationLessThan := None\<rparr>) v"
  by (simp add: keep_def Let_def shouldDropVideo_def cong: option.case_cong if_cong)

lemma keep_zero_more: "keep env (f\<lparr>durationMoreThan := Some (Number 0)\<rparr>) v = keep env (f\<lparr>durationMoreThan := None\<rparr>) v"
  by (simp add: keep_def Let_def shouldDropVideo_def cong: option.case_cong if_cong)

lemma applyFilters_cong_keep:
  "(\<And>v. keep env f v = keep env g v) \<Longrightarrow> applyFilters env f vs = applyFilters env g vs"
  by (induction vs) (simp_all cong: sum.case_cong)

text \<open>
  Claim C10. A duration bound configured as 0 acts as an absent bound. The number 0 is
  dropped at initialisation and the string \<^verbatim>\<open>"0"\<close> is stored as 0; a stored bound of 0
  gives, for every item and every list, the same verdict as no bound: no item is
  excluded for exceeding a maximum of 0 or for falling short of a minimum of 0.
\<close>

theorem zero_bound_is_no_bound:
  "parse_bound env (Some (CNum 0)) = None
   \<and> parse_bound env (Some (CStr ''0'')) = Some (Number 0)
   \<and> keep env (f\<lparr>durationLessThan := Some (Number 0)\<rparr>) v = keep env (f\<lparr>durationLessThan := None\<rparr>) v
   \<and> keep env (f\<lparr>durationMoreThan := Some (Number 0)\<rparr>) v = keep env (f\<lparr>durationMoreThan := None\<rparr>) v
   \<and> applyFilters env (f\<lparr>durationLessThan := Some (Number 0)\<rparr>) vs
       = applyFilters env (f\<lparr>durationLessThan := None\<rparr>) vs
   \<and> applyFilters env (f\<lparr>durationMoreThan := Some (Number 0)\<rparr>) vs
       = applyFilters env (f\<lparr>durationMoreThan := None\<rparr>) vs"
proof -
  have "parse_bound env (Some (CNum 0)) = None" by (simp add: parse_bound_def)
  moreover have "parse_bound env (Some (CStr ''0'')) = Some (Number 0)"
    by (simp add: parse_bound_def parse_defs)
  moreover note keep_zero_less [of env f v] keep_zero_more [of env f v]
  moreover have "applyFilters env (f\<lparr>durationLessThan := Some (Number 0)\<rparr>) vs
       = applyFilters env (f\<lparr>durationLessThan := None\<rparr>) vs"
    by (rule applyFilters_cong_keep) (rule keep_zero_less)
  moreover have "applyFilters env (f\<lparr>durationMoreThan := Some (Number 0)\<rparr>) vs
       = applyFilters env (f\<lparr>durationMoreThan := None\<rparr>) vs"
    by (rule applyFilters_cong_keep) (rule keep_zero_more)
  ultimately show ?thesis by blast
qed

text \<open>
  A bound given as a number is printed and read back: 300 is stored as 300, and a number
  that prints in exponent notation or with a fraction is cut at the first character
  that is not a digit.
\<close>

lemma parse_bound_number_samples:
  "parse_bound env (Some (CNum 300)) = Some (Number 300)"
  "parse_bound (env\<lparr>Number_toString := (\<lambda>x. ''1e+21'')\<rparr>) (Some (CNum (10 ^ 21))) = Some (Number 1)"
  "parse_bound (env\<lparr>Number_toString := (\<lambda>x. ''300.5'')\<rparr>) (Some (CNum 300.5)) = Some (Number 300)"
  by (simp_all add: parse_bound_def String_js_def show_int_def show_nat.simps parse_defs)

lemma keep_title_absent:
  assumes "title_of v = None \<or> title_of v = Some []"
  shows "keep env (f\<lparr>titleIncludes := Some re\<rparr>) v = keep env (f\<lparr>titleIncludes := None\<rparr>) v"
  using assms by (auto simp: keep_def Let_def shouldDropVideo_def cong: option.case_cong if_cong)

text \<open>
  Claim C4, as stated, fails: an item without a title passes a filter whose only
  constraint is a title pattern that matches nothing, because the title check is
  guarded by \<^verbatim>\<open>title &&\<close>.
\<close>

theorem absent_title_with_pattern_counterexample:
  "keep env0 (filters0\<lparr>titleIncludes := Some (\<lambda>t. False)\<rparr>) video_untitled = Inr True"
  by (simp add: keep_def filters0_def video_untitled_def title_of_def published_of_def)

text \<open>
  Claim C4, amended. For every item whose title is absent (or the empty string), the
  title imposes no constraint, whether or not a title pattern is configured: the
  verdict with a pattern equals the verdict with no pattern.
\<close>

theorem absent_title_imposes_no_constraint:
  assumes "title_of v = None \<or> title_of v = Some []"
  shows "keep env (f\<lparr>titleIncludes := Some re\<rparr>) v = keep env (f\<lparr>titleIncludes := None\<rparr>) v"
  using assms by (rule keep_title_absent)

theorem absent_title_imposes_no_constraint_witness:
  "(title_of video_untitled = None \<or> title_of video_untitled = Some [])
   \<and> keep env0 (filters0\<lparr>titleIncludes := Some (\<lambda>t. False)\<rparr>) video_untitled
       = keep env0 (filters0\<lparr>titleIncludes := None\<rparr>) video_untitled"
proof -
  have h: "title_of video_untitled = None \<or> title_of video_untitled = Some []"
    by (simp add: title_of_def video_untitled_def)
  show ?thesis
    using h absent_title_imposes_no_constraint [OF h, where env = env0 and f = filters0 and re = "\<lambda>t. False"] by simp
qed

subsection \<open>Identity scheme\<close>

lemma append_sep_unique:
  assumes "x \<notin> set a" and "x \<notin> set b" and "a @ x # r = b @ x # s"
  shows "a = b \<and> r = s"
  using assms
proof (induction a arbitrary: b)
  case Nil
  then show ?case by (cases b) auto
next
  case (Cons y a)
  then show ?case by (cases b) auto
qed

lemma identify_cancel:
  "identify c1 i1 m1 = identify c2 i2 m2 \<longleftrightarrow> c1 @ ''-'' @ i1 @ ''-'' @ m1 = c2 @ ''-'' @ i2 @ ''-'' @ m2"
  by (simp add: identify_def)

lemma identify_inj_no_dash:
  assumes "CHR ''-'' \<notin> set c1" "CHR ''-'' \<notin> set c2" "CHR ''-'' \<notin> set i1" "CHR ''-'' \<notin> set i2"
  shows "identify c1 i1 m1 = identify c2 i2 m2 \<longleftrightarrow> c1 = c2 \<and> i1 = i2 \<and> m1 = m2"
proof
  assume "identify c1 i1 m1 = identify c2 i2 m2"
  then have eq: "c1 @ CHR ''-'' # (i1 @ CHR ''-'' # m1) = c2 @ CHR ''-'' # (i2 @ CHR ''-'' # m2)"
    by (simp add: identify_cancel)
  from append_sep_unique [OF assms(1,2) eq]
  have c: "c1 = c2" and rest: "i1 @ CHR ''-'' # m1 = i2 @ CHR ''-'' # m2" by simp_all
  from append_sep_unique [OF assms(3,4) rest] c
  show "c1 = c2 \<and> i1 = i2 \<and> m1 = m2" by simp
next
  assume "c1 = c2 \<and> i1 = i2 \<and> m1 = m2"
  then show "identify c1 i1 m1 = identify c2 i2 m2" by simp
qed

lemma identify_inj_same_length:
  assumes "length c1 = length c2" "length i1 = length i2"
  shows "identify c1 i1 m1 = identify c2 i2 m2 \<longleftrightarrow> c1 = c2 \<and> i1 = i2 \<and> m1 = m2"
  using assms by (auto simp: identify_cancel)

text \<open>
  Claim C2, as stated, fails: the fields are joined by \<^verbatim>\<open>-\<close> without escaping, so a
  \<^verbatim>\<open>-\<close> inside the channel or item identifier can move the boundary between them.
\<close>

theorem identify_collision_counterexample:
  "(''a-b'', ''c'', ''video'') \<noteq> (''a'', ''b-c'', ''video'')
   \<and> identify ''a-b'' ''c'' ''video'' = identify ''a'' ''b-c'' ''video''"
  by (simp add: identify_def)

text \<open>
  Claim C2, amended. The derived identifier is injective in (channel, item, mode) when
  the channel and item identifiers contain no \<^verbatim>\<open>-\<close>, and also when the two channel
  identifiers have the same length and the two item identifiers have the same length.
  For arbitrary strings, two tuples that differ in one field only get different
  identifiers: different modes for the same channel and item, different channels for
  the same item and mode, and different items for the same channel and mode never
  collide.
\<close>

theorem identify_injective:
  "(CHR ''-'' \<notin> set c1 \<and> CHR ''-'' \<notin> set c2 \<and> CHR ''-'' \<notin> set i1 \<and> CHR ''-'' \<notin> set i2
      \<longrightarrow> (identify c1 i1 m1 = identify c2 i2 m2 \<longleftrightarrow> c1 = c2 \<and> i1 = i2 \<and> m1 = m2))
   \<and> (length c1 = length c2 \<and> length i1 = length i2
      \<longrightarrow> (identify c1 i1 m1 = identify c2 i2 m2 \<longleftrightarrow> c1 = c2 \<and> i1 = i2 \<and> m1 = m2))
   \<and> (m1 \<noteq> m2 \<longrightarrow> identify c i m1 \<noteq> identify c i m2)
   \<and> (c1 \<noteq> c2 \<longrightarrow> identify c1 i m \<noteq> identify c2 i m)
   \<and> (i1 \<noteq> i2 \<longrightarrow> identify c i1 m \<noteq> identify c i2 m)"
proof -
  have "m1 \<noteq> m2 \<longrightarrow> identify c i m1 \<noteq> identify c i m2"
    by (simp add: identify_def)
  moreover have "c1 \<noteq> c2 \<longrightarrow> identify c1 i m \<noteq> identify c2 i m"
    by (simp add: identify_def)
  moreover have "i1 \<noteq> i2 \<longrightarrow> identify c i1 m \<noteq> identify c i2 m"
    by (simp add: identify_def)
  ultimately show ?thesis
    using identify_inj_no_dash [of c1 c2 i1 i2 m1 m2] identify_inj_same_length [of c1 c2 i1 i2 m1 m2]
    by blast
qed

theorem identify_injective_witness:
  "CHR ''-'' \<notin> set ''UCabc'' \<and> CHR ''-'' \<notin> set ''UCabd'' \<and> CHR ''-'' \<notin> set ''vid01'' \<and> CHR ''-'' \<notin> set ''vid01''
   \<and> length ''UCabc'' = length ''UCabd'' \<and> length ''vid01'' = length ''vid01''
   \<and> ''video'' \<noteq> ''audio'' \<and> ''UCabc'' \<noteq> ''UCabd'' \<and> ''vid01'' \<noteq> ''vid02''
   \<and> identify ''UCabc'' ''vid01'' ''video'' \<noteq> identify ''UCabd'' ''vid01'' ''video''
   \<and> identify ''UCabc'' ''vid01'' ''video'' \<noteq> identify ''UCabc'' ''vid01'' ''audio''
   \<and> identify ''UCabc'' ''vid01'' ''video'' \<noteq> identify ''UCabc'' ''vid02'' ''video''"
  using identify_injective [of "''UCabc''" "''UCabd''" "''vid01''" "''vid01''" "''video''" "''video''"]
    identify_injective [where ?m1.0 = "''video''" and ?m2.0 = "''audio''" and c = "''UCabc''" and i = "''vid01''"]
    identify_injective [where ?i1.0 = "''vid01''" and ?i2.0 = "''vid02''" and c = "''UCabc''" and m = "''video''"]
  by simp

subsection \<open>Reconciler\<close>

lemma set_update_subset: "set (AList.update k v al) \<subseteq> insert (k, v) (set al)"
  by (induction al) auto

lemma collect_eq:
  "collect st ex vs (cur, new) =
     (cur \<union> fileId st ` set vs, new @ filter (\<lambda>v. map_of ex (fileId st v) = None) vs)"
  by (induction vs arbitrary: cur new) auto

lemma map_of_None_keys: "map_of ex k = None \<longleftrightarrow> k \<notin> fst ` set ex"
  by (simp add: map_of_eq_None_iff)

lemma getContent_error_iff:
  "(\<exists>e. getContent env st v = Inl e) \<longleftrightarrow> mode st \<notin> set [''metadata'', ''thumbnail'', ''transcript'', ''video'', ''audio'']"
  by (simp add: getContent_def)

lemma getContent_invalid:
  "mode st \<notin> set [''metadata'', ''thumbnail'', ''transcript'', ''video'', ''audio'']
   \<Longrightarrow> getContent env st v = Inl (Error (''Invalid mode: '' @ mode st))"
  by (simp add: getContent_def)

lemma getContent_valid:
  "mode st \<in> set [''metadata'', ''thumbnail'', ''transcript'', ''video'', ''audio'']
   \<Longrightarrow> \<exists>c. getContent env st v = Inr c"
  by (auto simp: getContent_def)

lemma fetch_new_invalid:
  "mode st \<notin> set [''metadata'', ''thumbnail'', ''transcript'', ''video'', ''audio''] \<Longrightarrow> vs \<noteq> []
   \<Longrightarrow> fetch_new env st vs U = Inl (Error (''Invalid mode: '' @ mode st))"
  by (cases vs) (simp_all add: getContent_invalid)

lemma fetch_new_ok:
  assumes "fetch_new env st vs U = Inr U'"
  shows "(\<forall>k. map_of U' k =
            (if k \<in> fileId st ` set vs
             then (case getContent env st (last (filter (\<lambda>v. fileId st v = k) vs)) of
                     Inl e \<Rightarrow> None | Inr c \<Rightarrow> Some (Add, c))
             else map_of U k))
         \<and> (distinct (map fst U) \<longrightarrow> distinct (map fst U'))"
  using assms
proof (induction vs arbitrary: U)
  case Nil
  then show ?case by simp
next
  case (Cons v vs)
  from Cons.prems obtain c where c: "getContent env st v = Inr c"
    and rest: "fetch_new env st vs (AList.update (fileId st v) (Add, c) U) = Inr U'"
    by (auto split: sum.splits)
  note ih = Cons.IH [OF rest]
  show ?case
  proof (intro conjI allI impI)
    fix k
    show "map_of U' k =
            (if k \<in> fileId st ` set (v # vs)
             then (case getContent env st (last (filter (\<lambda>v. fileId st v = k) (v # vs))) of
                     Inl e \<Rightarrow> None | Inr c \<Rightarrow> Some (Add, c))
             else map_of U k)"
    proof (cases "k \<in> fileId st ` set vs")
      case True
      then have "filter (\<lambda>v. fileId st v = k) vs \<noteq> []"
        by (auto simp: filter_empty_conv)
      then show ?thesis using ih True by simp
    next
      case False
      then have "filter (\<lambda>v. fileId st v = k) vs = []"
        by (auto simp: filter_empty_conv)
      then show ?thesis using ih False c by (auto simp: update_conv')
    qed
  next
    assume "distinct (map fst U)"
    then have "distinct (map fst (AList.update (fileId st v) (Add, c) U))"
      by (rule distinct_update)
    then show "distinct (map fst U')" using ih by blast
  qed
qed

lemma fetch_new_total:
  "mode st \<in> set [''metadata'', ''thumbnail'', ''transcript'', ''video'', ''audio'']
   \<Longrightarrow> \<exists>U'. fetch_new env st vs U = Inr U'"
proof (induction vs arbitrary: U)
  case Nil
  then show ?case by simp
next
  case (Cons v vs)
  then show ?case using getContent_valid [of st env v] by auto
qed

lemma fetch_new_actions:
  "fetch_new env st vs U = Inr U' \<Longrightarrow> \<forall>e \<in> set U. fst (snd e) \<noteq> Update
   \<Longrightarrow> \<forall>e \<in> set U'. fst (snd e) \<noteq> Update"
proof (induction vs arbitrary: U)
  case Nil
  then show ?case by simp
next
  case (Cons v vs)
  from Cons.prems(1) obtain c where c: "getContent env st v = Inr c"
    and rest: "fetch_new env st vs (AList.update (fileId st v) (Add, c) U) = Inr U'"
    by (auto split: sum.splits)
  have "\<forall>e \<in> set (AList.update (fileId st v) (Add, c) U). fst (snd e) \<noteq> Update"
    using Cons.prems(2) set_update_subset [of "fileId st v" "(Add, c)" U] by auto
  from Cons.IH [OF rest this] show ?case .
qed

lemma mark_deleted_map_of:
  "map_of (mark_deleted cur ks U) k =
     (if k \<in> set ks \<and> k \<notin> cur then Some (Delete, None) else map_of U k)"
  by (induction ks arbitrary: U) (auto simp: update_conv')

lemma mark_deleted_distinct:
  "distinct (map fst U) \<Longrightarrow> distinct (map fst (mark_deleted cur ks U))"
  by (induction ks arbitrary: U) (simp_all add: distinct_update)

lemma mark_deleted_actions:
  "\<forall>e \<in> set U. fst (snd e) \<noteq> Update \<Longrightarrow> \<forall>e \<in> set (mark_deleted cur ks U). fst (snd e) \<noteq> Update"
proof (induction ks arbitrary: U)
  case Nil
  then show ?case by simp
next
  case (Cons k ks)
  have "\<forall>e \<in> set (AList.update k (Delete, None) U). fst (snd e) \<noteq> Update"
    using Cons.prems set_update_subset [of k "(Delete, None)" U] by auto
  with Cons show ?case by simp
qed

lemma mark_deleted_none:
  "set ks \<subseteq> cur \<Longrightarrow> mark_deleted cur ks U = U"
  by (induction ks arbitrary: U) simp_all

lemma update_try_filtered:
  assumes "filtered env st = Inr fs"
  shows "update_try env st ex =
     (case fetch_new env st (filter (\<lambda>v. map_of ex (fileId st v) = None) fs) [] of
        Inl e \<Rightarrow> Inl e
      | Inr U \<Rightarrow> Inr (if \<not> noDelete st then mark_deleted (fileId st ` set fs) (map fst ex) U else U))"
  using assms
  by (auto simp: filtered_def update_try_def collect_eq split: sum.splits)

lemma update_try_filtered_error:
  "filtered env st = Inl e \<Longrightarrow> update_try env st ex = Inl e"
  by (auto simp: filtered_def update_try_def split: sum.splits)

lemma filter_new_by_key:
  assumes "k \<notin> fst ` set ex"
  shows "filter (\<lambda>v. fileId st v = k) (filter (\<lambda>v. map_of ex (fileId st v) = None) fs)
         = filter (\<lambda>v. fileId st v = k) fs"
proof -
  have "\<And>v. fileId st v = k \<and> map_of ex (fileId st v) = None \<longleftrightarrow> fileId st v = k"
    using assms by (auto simp: map_of_None_keys)
  then show ?thesis by (simp add: conj_commute cong: filter_cong)
qed

lemma new_keys:
  "k \<in> fileId st ` set (filter (\<lambda>v. map_of ex (fileId st v) = None) fs)
   \<longleftrightarrow> k \<in> fileId st ` set fs \<and> k \<notin> fst ` set ex"
  by (auto simp: map_of_None_keys)

lemma update_try_map_of:
  assumes "filtered env st = Inr fs" and "update_try env st ex = Inr R"
  shows "map_of R k =
           (if k \<in> fileId st ` set fs \<and> k \<notin> fst ` set ex
            then (case getContent env st (last (filter (\<lambda>v. fileId st v = k) fs)) of
                    Inl e \<Rightarrow> None | Inr c \<Rightarrow> Some (Add, c))
            else if k \<in> fst ` set ex \<and> k \<notin> fileId st ` set fs \<and> \<not> noDelete st
            then Some (Delete, None) else None)"
    and "distinct (map fst R)"
    and "\<forall>e \<in> set R. fst (snd e) \<noteq> Update"
proof -
  let ?new = "filter (\<lambda>v. map_of ex (fileId st v) = None) fs"
  from assms obtain U where U: "fetch_new env st ?new [] = Inr U"
    and R: "R = (if \<not> noDelete st then mark_deleted (fileId st ` set fs) (map fst ex) U else U)"
    by (auto simp: update_try_filtered split: sum.splits)
  from fetch_new_ok [OF U]
  have mU: "\<And>k. map_of U k =
            (if k \<in> fileId st ` set ?new
             then (case getContent env st (last (filter (\<lambda>v. fileId st v = k) ?new)) of
                     Inl e \<Rightarrow> None | Inr c \<Rightarrow> Some (Add, c))
             else None)"
    and dU: "distinct (map fst U)"
    by simp_all
  have mU': "map_of U k =
            (if k \<in> fileId st ` set fs \<and> k \<notin> fst ` set ex
             then (case getContent env st (last (filter (\<lambda>v. fileId st v = k) fs)) of
                     Inl e \<Rightarrow> None | Inr c \<Rightarrow> Some (Add, c))
             else None)"
  proof (cases "k \<in> fileId st ` set fs \<and> k \<notin> fst ` set ex")
    case True
    then have "k \<in> fileId st ` set ?new" using new_keys [of k st ex fs] by blast
    then show ?thesis using mU [of k] True filter_new_by_key [of k ex st fs] by simp
  next
    case False
    then have "k \<notin> fileId st ` set ?new" using new_keys [of k st ex fs] by blast
    then have "map_of U k = None" using mU [of k] by simp
    then show ?thesis using False by auto
  qed
  show "map_of R k =
           (if k \<in> fileId st ` set fs \<and> k \<notin> fst ` set ex
            then (case getContent env st (last (filter (\<lambda>v. fileId st v = k) fs)) of
                    Inl e \<Rightarrow> None | Inr c \<Rightarrow> Some (Add, c))
            else if k \<in> fst ` set ex \<and> k \<notin> fileId st ` set fs \<and> \<not> noDelete st
            then Some (Delete, None) else None)"
    unfolding R using mU' by (auto simp: mark_deleted_map_of)
  show "distinct (map fst R)"
    unfolding R using dU by (simp add: mark_deleted_distinct)
  have "\<forall>e \<in> set U. fst (snd e) \<noteq> Update"
    using fetch_new_actions [OF U] by simp
  then show "\<forall>e \<in> set R. fst (snd e) \<noteq> Update"
    unfolding R using mark_deleted_actions [of U] by simp
qed

lemma update_try_total:
  assumes "filtered env st = Inr fs"
    and "mode st \<in> set [''metadata'', ''thumbnail'', ''transcript'', ''video'', ''audio'']"
  shows "\<exists>R. update_try env st ex = Inr R"
  using fetch_new_total [OF assms(2), of env "filter (\<lambda>v. map_of ex (fileId st v) = None) fs" "[]"]
  by (auto simp: update_try_filtered [OF assms(1)])

lemma getContent_modes:
  "mode st = ''metadata'' \<Longrightarrow> getContent env st v = Inr (map_option (JSON_stringify env) (snippet v))"
  "mode st = ''thumbnail'' \<Longrightarrow> getContent env st v =
     Inr (Some (case snippet v of
                  None \<Rightarrow> []
                | Some sn \<Rightarrow> (case thumbnails_high_url sn of None \<Rightarrow> [] | Some u \<Rightarrow> u)))"
  "mode st = ''transcript'' \<Longrightarrow> getContent env st v = Inr (Some (getTranscriptContent env st v))"
  "mode st = ''video'' \<Longrightarrow> getContent env st v =
     Inr (Some (''https://www.youtube.com/watch?v='' @ (case vid v of None \<Rightarrow> ''undefined'' | Some i \<Rightarrow> i)))"
  "mode st = ''audio'' \<Longrightarrow> getContent env st v = Inr (Some ''Audio extraction not yet implemented'')"
  by (auto simp: getContent_def getMetadataContent_def getThumbnailContent_def or_else_def
      getVideoContent_def getAudioContent_def show_id_def split: option.splits)

lemma getTranscriptContent_cases:
  "fetchTranscript env (vid v) = Inl e \<Longrightarrow> getTranscriptContent env st v = ''Transcript not available''"
  "fetchTranscript env (vid v) = Inr ts \<Longrightarrow> \<not> includeHeader st
     \<Longrightarrow> getTranscriptContent env st v = join_sp ts"
  "fetchTranscript env (vid v) = Inr ts \<Longrightarrow> includeHeader st \<Longrightarrow> published_of env v = Some NaN
     \<Longrightarrow> getTranscriptContent env st v = ''Transcript not available''"
  "fetchTranscript env (vid v) = Inr ts \<Longrightarrow> includeHeader st \<Longrightarrow> published_of env v \<noteq> Some NaN
     \<Longrightarrow> getTranscriptContent env st v =
           ''YouTube video: '' @ or_else (title_of v) ''Unknown Title'' @ [CHR 0x0A]
           @ ''Video URL: https://www.youtube.com/watch?v='' @ show_id (vid v) @ [CHR 0x0A]
           @ ''Uploaded by: ''
           @ or_else (case snippet v of None \<Rightarrow> None | Some sn \<Rightarrow> channelTitle sn) ''Unknown Channel''
           @ [CHR 0x0A]
           @ ''Date: ''
           @ (case published_of env v of Some (Number ms) \<Rightarrow> toISOString env ms | _ \<Rightarrow> ''Unknown Date'')
           @ [CHR 0x0A] @ ''Video transcript follows:'' @ [CHR 0x0A] @ join_sp ts
           @ [CHR 0x0A] @ ''[end of video]''"
  by (auto simp: getTranscriptContent_def Let_def split: option.splits num_js.splits)

text \<open>
  Claim C1. When the catalogue listing and the filters succeed with the filtered items
  \<open>fs\<close> and the mode is one of the five content modes, the change set returned by
  \<^verbatim>\<open>update\<close> is a mapping (no key twice) in which: an identifier derived from a filtered
  item and not a key of the prior state has an \<open>Add\<close> entry whose payload is the content
  that the mode selects, fetched for the last filtered item with that identifier: the
  serialised snippet in mode \<^verbatim>\<open>metadata\<close> (no payload when the item has no snippet), the
  high-resolution thumbnail address or the empty string in mode \<^verbatim>\<open>thumbnail\<close>, the
  transcript text of \<^verbatim>\<open>getTranscriptContent\<close> in mode \<^verbatim>\<open>transcript\<close>, the watch address
  of the item in mode \<^verbatim>\<open>video\<close>, and the fixed placeholder in mode \<^verbatim>\<open>audio\<close>; a
  prior-state key that no filtered item derives has a \<open>Delete\<close> entry without payload
  when the no-delete flag is false, and no entry when the flag is true; an identifier in
  both, or in neither, has no entry; and no entry has the action \<open>Update\<close>.
\<close>

theorem update_change_set:
  assumes "filtered env st = Inr fs"
    and "mode st \<in> set [''metadata'', ''thumbnail'', ''transcript'', ''video'', ''audio'']"
  shows "(k \<in> fileId st ` set fs \<and> k \<notin> fst ` set ex
            \<longrightarrow> (\<exists>c. getContent env st (last (filter (\<lambda>v. fileId st v = k) fs)) = Inr c
                     \<and> map_of (update env st ex) k = Some (Add, c)))
         \<and> (k \<in> fileId st ` set fs \<and> k \<notin> fst ` set ex \<and> mode st = ''metadata''
            \<longrightarrow> map_of (update env st ex) k =
                  Some (Add, map_option (JSON_stringify env)
                               (snippet (last (filter (\<lambda>v. fileId st v = k) fs)))))
         \<and> (k \<in> fileId st ` set fs \<and> k \<notin> fst ` set ex \<and> mode st = ''thumbnail''
            \<longrightarrow> map_of (update env st ex) k =
                  Some (Add, Some (case snippet (last (filter (\<lambda>v. fileId st v = k) fs)) of
                                     None \<Rightarrow> []
                                   | Some sn \<Rightarrow>
                                       (case thumbnails_high_url sn of None \<Rightarrow> [] | Some u \<Rightarrow> u))))
         \<and> (k \<in> fileId st ` set fs \<and> k \<notin> fst ` set ex \<and> mode st = ''transcript''
            \<longrightarrow> map_of (update env st ex) k =
                  Some (Add, Some (getTranscriptContent env st
                                     (last (filter (\<lambda>v. fileId st v = k) fs)))))
         \<and> (k \<in> fileId st ` set fs \<and> k \<notin> fst ` set ex \<and> mode st = ''video''
            \<longrightarrow> map_of (update env st ex) k =
                  Some (Add, Some (''https://www.youtube.com/watch?v=''
                                   @ (case vid (last (filter (\<lambda>v. fileId st v = k) fs)) of
                                        None \<Rightarrow> ''undefined'' | Some i \<Rightarrow> i))))
         \<and> (k \<in> fileId st ` set fs \<and> k \<notin> fst ` set ex \<and> mode st = ''audio''
            \<longrightarrow> map_of (update env st ex) k =
                  Some (Add, Some ''Audio extraction not yet implemented''))
         \<and> (k \<in> fst ` set ex \<and> k \<notin> fileId st ` set fs
            \<longrightarrow> map_of (update env st ex) k = (if noDelete st then None else Some (Delete, None)))
         \<and> (k \<in> fst ` set ex \<and> k \<in> fileId st ` set fs \<longrightarrow> map_of (update env st ex) k = None)
         \<and> (k \<notin> fst ` set ex \<and> k \<notin> fileId st ` set fs \<longrightarrow> map_of (update env st ex) k = None)
         \<and> distinct (map fst (update env st ex))
         \<and> (\<forall>e \<in> set (update env st ex). fst (snd e) \<noteq> Update)"
proof -
  let ?v = "last (filter (\<lambda>v. fileId st v = k) fs)"
  obtain R where R: "update_try env st ex = Inr R"
    using update_try_total [OF assms] by blast
  then have upd: "update env st ex = R" by (simp add: update_def)
  obtain c where c: "getContent env st ?v = Inr c"
    using getContent_valid [OF assms(2)] by blast
  note m = update_try_map_of(1) [OF assms(1) R, of k]
  have add: "map_of R k = Some (Add, c)" if "k \<in> fileId st ` set fs \<and> k \<notin> fst ` set ex"
    using m c that by simp
  have a0: "k \<in> fileId st ` set fs \<and> k \<notin> fst ` set ex
            \<longrightarrow> (\<exists>c. getContent env st ?v = Inr c \<and> map_of R k = Some (Add, c))"
    using add c by blast
  have a1: "k \<in> fileId st ` set fs \<and> k \<notin> fst ` set ex \<and> mode st = ''metadata''
            \<longrightarrow> map_of R k = Some (Add, map_option (JSON_stringify env) (snippet ?v))"
    using add c getContent_modes(1) [of st env ?v] by auto
  have a2: "k \<in> fileId st ` set fs \<and> k \<notin> fst ` set ex \<and> mode st = ''thumbnail''
            \<longrightarrow> map_of R k =
                  Some (Add, Some (case snippet ?v of
                                     None \<Rightarrow> []
                                   | Some sn \<Rightarrow>
                                       (case thumbnails_high_url sn of None \<Rightarrow> [] | Some u \<Rightarrow> u)))"
    using add c getContent_modes(2) [of st env ?v] by auto
  have a3: "k \<in> fileId st ` set fs \<and> k \<notin> fst ` set ex \<and> mode st = ''transcript''
            \<longrightarrow> map_of R k = Some (Add, Some (getTranscriptContent env st ?v))"
    using add c getContent_modes(3) [of st env ?v] by auto
  have a4: "k \<in> fileId st ` set fs \<and> k \<notin> fst ` set ex \<and> mode st = ''video''
            \<longrightarrow> map_of R k =
                  Some (Add, Some (''https://www.youtube.com/watch?v=''
                                   @ (case vid ?v of None \<Rightarrow> ''undefined'' | Some i \<Rightarrow> i)))"
    using add c getContent_modes(4) [of st env ?v] by auto
  have a5: "k \<in> fileId st ` set fs \<and> k \<notin> fst ` set ex \<and> mode st = ''audio''
            \<longrightarrow> map_of R k = Some (Add, Some ''Audio extraction not yet implemented'')"
    using add c getContent_modes(5) [of st env ?v] by auto
  have d: "k \<in> fst ` set ex \<and> k \<notin> fileId st ` set fs
            \<longrightarrow> map_of R k = (if noDelete st then None else Some (Delete, None))"
    using m by simp
  have b: "k \<in> fst ` set ex \<and> k \<in> fileId st ` set fs \<longrightarrow> map_of R k = None"
    using m by simp
  have n: "k \<notin> fst ` set ex \<and> k \<notin> fileId st ` set fs \<longrightarrow> map_of R k = None"
    using m by simp
  show ?thesis
    unfolding upd
    by (intro conjI a0 a1 a2 a3 a4 a5 d b n update_try_map_of(2,3) [OF assms(1) R])
qed

lemmas sample_defs = env_two_def env0_def shop_video_def filters0_def video_long_def
  video_untitled_def files_prior_def

lemmas filter_defs = filtered_def keep_def title_of_def published_of_def duration_of_def
  shouldDropVideo_def

lemma filtered_env_two: "filtered env_two shop_video = Inr [video_long, video_untitled]"
  by (simp add: filter_defs env_two_def env0_def shop_video_def filters0_def)

lemma fileId_samples:
  "fileId shop_video video_long = ''youtube-channel-UC1-dQw4w9WgXcQ-video''"
  "fileId shop_video video_untitled = ''youtube-channel-UC1-abc12345678-video''"
  by (simp_all add: fileId_def identify_def show_id_def shop_video_def video_long_def video_untitled_def)

lemma filtered_env_talk: "filtered env_talk (shop_mode m) = Inr [video_talk]"
  by (simp add: filter_defs env_talk_def env0_def shop_mode_def shop_video_def filters0_def)

lemma fileId_talk: "fileId (shop_mode m) video_talk = ''youtube-channel-UC1-talk0000001-'' @ m"
  by (simp add: fileId_def identify_def show_id_def shop_mode_def shop_video_def video_talk_def)

lemma transcript_talk:
  "getTranscriptContent env_talk (shop_mode ''transcript'') video_talk =
     ''YouTube video: A talk'' @ [CHR 0x0A]
     @ ''Video URL: https://www.youtube.com/watch?v=talk0000001'' @ [CHR 0x0A]
     @ ''Uploaded by: Chan'' @ [CHR 0x0A]
     @ ''Date: 2023-05-01T00:00:00.000Z'' @ [CHR 0x0A]
     @ ''Video transcript follows:'' @ [CHR 0x0A]
     @ ''hello world'' @ [CHR 0x0A]
     @ ''[end of video]''"
  by (simp add: getTranscriptContent_def env_talk_def env0_def shop_mode_def shop_video_def
      video_talk_def title_of_def published_of_def or_else_def show_id_def)

lemma video_fields:
  "vid video_untitled = Some ''abc12345678''"
  "vid video_talk = Some ''talk0000001''"
  "snippet video_talk =
     Some \<lparr> title = Some ''A talk'', publishedAt = Some ''2023-05-01T00:00:00Z'',
            channelTitle = Some ''Chan'',
            thumbnails_high_url = Some ''https://i.ytimg.com/vi/talk0000001/hqdefault.jpg'' \<rparr>"
  by (simp_all add: video_untitled_def video_talk_def)

theorem update_change_set_witness:
  "filtered env_two shop_video = Inr [video_long, video_untitled]
   \<and> mode shop_video \<in> set [''metadata'', ''thumbnail'', ''transcript'', ''video'', ''audio'']
   \<and> map_of (update env_two shop_video files_prior) ''youtube-channel-UC1-abc12345678-video''
       = Some (Add, Some ''https://www.youtube.com/watch?v=abc12345678'')
   \<and> map_of (update env_two shop_video files_prior) ''youtube-channel-UC1-gone0000000-video''
       = Some (Delete, None)
   \<and> map_of (update env_two shop_video files_prior) ''youtube-channel-UC1-dQw4w9WgXcQ-video'' = None
   \<and> map_of (update env_two shop_video files_prior) ''unrelated'' = None
   \<and> map_of (update env_talk (shop_mode ''metadata'') []) ''youtube-channel-UC1-talk0000001-metadata''
       = Some (Add, Some ''json:A talk'')
   \<and> map_of (update env_talk (shop_mode ''thumbnail'') []) ''youtube-channel-UC1-talk0000001-thumbnail''
       = Some (Add, Some ''https://i.ytimg.com/vi/talk0000001/hqdefault.jpg'')
   \<and> map_of (update env_talk (shop_mode ''transcript'') []) ''youtube-channel-UC1-talk0000001-transcript''
       = Some (Add, Some (''YouTube video: A talk'' @ [CHR 0x0A]
                          @ ''Video URL: https://www.youtube.com/watch?v=talk0000001'' @ [CHR 0x0A]
                          @ ''Uploaded by: Chan'' @ [CHR 0x0A]
                          @ ''Date: 2023-05-01T00:00:00.000Z'' @ [CHR 0x0A]
                          @ ''Video transcript follows:'' @ [CHR 0x0A]
                          @ ''hello world'' @ [CHR 0x0A]
                          @ ''[end of video]''))
   \<and> map_of (update env_talk (shop_mode ''video'') []) ''youtube-channel-UC1-talk0000001-video''
       = Some (Add, Some ''https://www.youtube.com/watch?v=talk0000001'')
   \<and> map_of (update env_talk (shop_mode ''audio'') []) ''youtube-channel-UC1-talk0000001-audio''
       = Some (Add, Some ''Audio extraction not yet implemented'')"
proof -
  have m: "mode shop_video \<in> set [''metadata'', ''thumbnail'', ''transcript'', ''video'', ''audio'']"
    by (simp add: shop_video_def)
  have nd: "\<not> noDelete shop_video" by (simp add: shop_video_def)
  have mv: "mode shop_video = ''video''" by (simp add: shop_video_def)
  have w1: "map_of (update env_two shop_video files_prior) ''youtube-channel-UC1-abc12345678-video''
       = Some (Add, Some ''https://www.youtube.com/watch?v=abc12345678'')"
    using update_change_set [OF filtered_env_two m, of "''youtube-channel-UC1-abc12345678-video''" files_prior] mv
    by (simp add: fileId_samples files_prior_def video_fields)
  have w2: "map_of (update env_two shop_video files_prior) ''youtube-channel-UC1-gone0000000-video''
       = Some (Delete, None)"
    using update_change_set [OF filtered_env_two m, of "''youtube-channel-UC1-gone0000000-video''" files_prior] nd
    by (simp add: fileId_samples files_prior_def)
  have w3: "map_of (update env_two shop_video files_prior) ''youtube-channel-UC1-dQw4w9WgXcQ-video'' = None"
    using update_change_set [OF filtered_env_two m, of "''youtube-channel-UC1-dQw4w9WgXcQ-video''" files_prior]
    by (simp add: fileId_samples files_prior_def)
  have w4: "map_of (update env_two shop_video files_prior) ''unrelated'' = None"
    using update_change_set [OF filtered_env_two m, of "''unrelated''" files_prior]
    by (simp add: fileId_samples files_prior_def)
  have md: "mode (shop_mode x) = x" for x by (simp add: shop_mode_def)
  have t1: "map_of (update env_talk (shop_mode ''metadata'') []) ''youtube-channel-UC1-talk0000001-metadata''
       = Some (Add, Some ''json:A talk'')"
    using update_change_set [OF filtered_env_talk, of "''metadata''" "''youtube-channel-UC1-talk0000001-metadata''" "[]"]
    by (simp add: md fileId_talk env_talk_def video_fields)
  have t2: "map_of (update env_talk (shop_mode ''thumbnail'') []) ''youtube-channel-UC1-talk0000001-thumbnail''
       = Some (Add, Some ''https://i.ytimg.com/vi/talk0000001/hqdefault.jpg'')"
    using update_change_set [OF filtered_env_talk, of "''thumbnail''" "''youtube-channel-UC1-talk0000001-thumbnail''" "[]"]
    by (simp add: md fileId_talk video_fields)
  have t3: "map_of (update env_talk (shop_mode ''transcript'') []) ''youtube-channel-UC1-talk0000001-transcript''
       = Some (Add, Some (getTranscriptContent env_talk (shop_mode ''transcript'') video_talk))"
    using update_change_set [OF filtered_env_talk, of "''transcript''" "''youtube-channel-UC1-talk0000001-transcript''" "[]"]
    by (simp add: md fileId_talk)
  have t4: "map_of (update env_talk (shop_mode ''video'') []) ''youtube-channel-UC1-talk0000001-video''
       = Some (Add, Some ''https://www.youtube.com/watch?v=talk0000001'')"
    using update_change_set [OF filtered_env_talk, of "''video''" "''youtube-channel-UC1-talk0000001-video''" "[]"]
    by (simp add: md fileId_talk video_fields)
  have t5: "map_of (update env_talk (shop_mode ''audio'') []) ''youtube-channel-UC1-talk0000001-audio''
       = Some (Add, Some ''Audio extraction not yet implemented'')"
    using update_change_set [OF filtered_env_talk, of "''audio''" "''youtube-channel-UC1-talk0000001-audio''" "[]"]
    by (simp add: md fileId_talk)
  show ?thesis
    unfolding transcript_talk [symmetric]
    by (intro conjI filtered_env_two m w1 w2 w3 w4 t1 t2 t3 t4 t5)
qed

lemma update_env_two_value:
  "update env_two shop_video files_prior =
     [(''youtube-channel-UC1-abc12345678-video'', (Add, Some ''https://www.youtube.com/watch?v=abc12345678'')),
      (''youtube-channel-UC1-gone0000000-video'', (Delete, None))]"
  by (simp add: update_def update_try_def filter_defs sample_defs fileId_def identify_def show_id_def
      getContent_def getVideoContent_def)

subsection \<open>Failure of a pass\<close>

lemma update_try_invalid_mode:
  assumes "filtered env st = Inr fs"
    and "mode st \<notin> set [''metadata'', ''thumbnail'', ''transcript'', ''video'', ''audio'']"
    and "\<exists>v \<in> set fs. map_of ex (fileId st v) = None"
  shows "update_try env st ex = Inl (Error (''Invalid mode: '' @ mode st))"
proof -
  have "filter (\<lambda>v. map_of ex (fileId st v) = None) fs \<noteq> []"
    using assms(3) by (simp add: filter_empty_conv)
  from fetch_new_invalid [OF assms(2) this]
  show ?thesis by (simp add: update_try_filtered [OF assms(1)])
qed

text \<open>
  Claim C8. Whenever the body of the pass fails, \<^verbatim>\<open>update\<close> returns the empty change
  set, for every prior state: when the catalogue listing fails, when a filter raises,
  and when the mode is not a content mode and some filtered item is new (the additions
  fetched before the failure are discarded with the rest).
\<close>

theorem update_failure_yields_empty:
  "(update_try env st ex = Inl e \<longrightarrow> update env st ex = [])
   \<and> (getAllVideoDetails env = Inl e \<longrightarrow> update_try env st ex = Inl e \<and> update env st ex = [])
   \<and> (getAllVideoDetails env = Inr vs \<and> applyFilters env (filters st) vs = Inl e
        \<longrightarrow> update_try env st ex = Inl e \<and> update env st ex = [])
   \<and> (filtered env st = Inr fs
        \<and> mode st \<notin> set [''metadata'', ''thumbnail'', ''transcript'', ''video'', ''audio'']
        \<and> (\<exists>v \<in> set fs. map_of ex (fileId st v) = None)
        \<longrightarrow> update_try env st ex = Inl (Error (''Invalid mode: '' @ mode st)) \<and> update env st ex = [])"
proof -
  have "update_try env st ex = Inl e \<longrightarrow> update env st ex = []"
    by (simp add: update_def)
  moreover have "getAllVideoDetails env = Inl e \<longrightarrow> update_try env st ex = Inl e \<and> update env st ex = []"
    by (simp add: update_def update_try_def)
  moreover have "getAllVideoDetails env = Inr vs \<and> applyFilters env (filters st) vs = Inl e
        \<longrightarrow> update_try env st ex = Inl e \<and> update env st ex = []"
    by (simp add: update_def update_try_def)
  moreover have "filtered env st = Inr fs
        \<and> mode st \<notin> set [''metadata'', ''thumbnail'', ''transcript'', ''video'', ''audio'']
        \<and> (\<exists>v \<in> set fs. map_of ex (fileId st v) = None)
        \<longrightarrow> update_try env st ex = Inl (Error (''Invalid mode: '' @ mode st)) \<and> update env st ex = []"
    using update_try_invalid_mode [of env st fs ex] by (simp add: update_def)
  ultimately show ?thesis by blast
qed

lemma keep_bad_unit_sample:
  "keep env_two filters_bad_unit video_long = Inl (Error ''Invalid dropAfter unit: x'')"
  by (simp add: filter_defs sample_defs filters_bad_unit_def parseDropAfter_def slice_last_def)

lemma filtered_bogus: "filtered env_two shop_bogus = Inr [video_long, video_untitled]"
  by (simp add: filter_defs sample_defs shop_bogus_def)

theorem update_failure_yields_empty_witness:
  "getAllVideoDetails env_down = Inl (Failure ''quotaExceeded'')
   \<and> update_try env_down shop_video files_prior = Inl (Failure ''quotaExceeded'')
   \<and> update env_down shop_video files_prior = []
   \<and> getAllVideoDetails env_two = Inr [video_long, video_untitled]
   \<and> applyFilters env_two (filters shop_bad_unit) [video_long, video_untitled]
       = Inl (Error ''Invalid dropAfter unit: x'')
   \<and> update env_two shop_bad_unit files_prior = []
   \<and> filtered env_two shop_bogus = Inr [video_long, video_untitled]
   \<and> mode shop_bogus \<notin> set [''metadata'', ''thumbnail'', ''transcript'', ''video'', ''audio'']
   \<and> (\<exists>v \<in> set [video_long, video_untitled]. map_of files_prior (fileId shop_bogus v) = None)
   \<and> update_try env_two shop_bogus files_prior = Inl (Error ''Invalid mode: bogus'')
   \<and> update env_two shop_bogus files_prior = []"
proof -
  have a: "getAllVideoDetails env_down = Inl (Failure ''quotaExceeded'')"
    by (simp add: env_down_def)
  have b: "getAllVideoDetails env_two = Inr [video_long, video_untitled]"
    by (simp add: env_two_def)
  have c: "applyFilters env_two (filters shop_bad_unit) [video_long, video_untitled]
       = Inl (Error ''Invalid dropAfter unit: x'')"
    by (simp add: shop_bad_unit_def keep_bad_unit_sample)
  have d: "mode shop_bogus \<notin> set [''metadata'', ''thumbnail'', ''transcript'', ''video'', ''audio'']"
    by (simp add: shop_bogus_def)
  have f: "\<exists>v \<in> set [video_long, video_untitled]. map_of files_prior (fileId shop_bogus v) = None"
    by (auto simp: fileId_def identify_def show_id_def shop_bogus_def sample_defs)
  have m: "mode shop_bogus = ''bogus''"
    by (simp add: shop_bogus_def)
  show ?thesis
    using a b c d f filtered_bogus m
      update_failure_yields_empty [of env_down shop_video files_prior "Failure ''quotaExceeded''"]
      update_failure_yields_empty [of env_two shop_bad_unit files_prior "Error ''Invalid dropAfter unit: x''"
        "[video_long, video_untitled]"]
      update_failure_yields_empty [of env_two shop_bogus files_prior _ _ "[video_long, video_untitled]"]
    by simp
qed

subsection \<open>Fixed point of the reconciliation\<close>

lemma keys_delete: "fst ` set (AList.delete k al) = fst ` set al - {k}"
proof -
  have "set (map fst (AList.delete k al)) = set (removeAll k (map fst al))"
    by (simp only: delete_keys)
  then show ?thesis by simp
qed

lemma keys_update: "fst ` set (AList.update k v al) = insert k (fst ` set al)"
  using dom_update [of k v al] by simp

lemma apply_changes_keys:
  "distinct (map fst cs) \<Longrightarrow>
   k \<in> fst ` set (apply_changes t cs ex) \<longleftrightarrow>
     (case map_of cs k of None \<Rightarrow> k \<in> fst ` set ex | Some (a, c) \<Rightarrow> a \<noteq> Delete)"
proof (induction cs arbitrary: ex)
  case Nil
  then show ?case by simp
next
  case (Cons x cs)
  obtain k' a c where x: "x = (k', (a, c))" by (cases x) auto
  from Cons.prems x have notin: "k' \<notin> fst ` set cs" and dist: "distinct (map fst cs)"
    by auto
  define ex' where "ex' = (if a = Delete then AList.delete k' ex else AList.update k' t ex)"
  have step: "apply_changes t (x # cs) ex = apply_changes t cs ex'"
    using x by (simp add: ex'_def)
  have ih: "k \<in> fst ` set (apply_changes t cs ex') \<longleftrightarrow>
     (case map_of cs k of None \<Rightarrow> k \<in> fst ` set ex' | Some (a, c) \<Rightarrow> a \<noteq> Delete)"
    by (rule Cons.IH [OF dist])
  have keys': "k \<in> fst ` set ex' \<longleftrightarrow> (if k = k' then a \<noteq> Delete else k \<in> fst ` set ex)"
    by (simp add: ex'_def keys_delete keys_update)
  show ?case
  proof (cases "k = k'")
    case True
    then have "map_of cs k = None" using notin by (simp add: map_of_None_keys)
    moreover have "map_of (x # cs) k = Some (a, c)" using True x by simp
    ultimately show ?thesis unfolding step using ih keys' True by simp
  next
    case False
    then have "map_of (x # cs) k = map_of cs k" using x by simp
    then show ?thesis unfolding step using ih keys' False by (simp split: option.splits)
  qed
qed

lemma fetch_new_cong:
  "\<forall>v \<in> set vs. getContent env1 st v = getContent env2 st v
   \<Longrightarrow> fetch_new env1 st vs U = fetch_new env2 st vs U"
  by (induction vs arbitrary: U) (simp_all cong: sum.case_cong)

lemma update_same_filtered:
  assumes "filtered env1 st = Inr fs" and "filtered env2 st = Inr fs"
    and "\<forall>v \<in> set fs. getContent env1 st v = getContent env2 st v"
  shows "update env1 st ex = update env2 st ex"
proof -
  have "fetch_new env1 st (filter (\<lambda>v. map_of ex (fileId st v) = None) fs) []
        = fetch_new env2 st (filter (\<lambda>v. map_of ex (fileId st v) = None) fs) []"
    using assms(3) by (intro fetch_new_cong) simp
  then show ?thesis
    by (simp add: update_def update_try_filtered [OF assms(1)] update_try_filtered [OF assms(2)])
qed

lemma update_try_error_mode:
  assumes "filtered env st = Inr fs" and "update_try env st ex = Inl e"
  shows "mode st \<notin> set [''metadata'', ''thumbnail'', ''transcript'', ''video'', ''audio'']
         \<and> (\<exists>v \<in> set fs. map_of ex (fileId st v) = None)"
proof -
  have "mode st \<notin> set [''metadata'', ''thumbnail'', ''transcript'', ''video'', ''audio'']"
    using update_try_total [OF assms(1), of ex] assms(2) by auto
  moreover have "filter (\<lambda>v. map_of ex (fileId st v) = None) fs \<noteq> []"
    using assms(2) by (auto simp: update_try_filtered [OF assms(1)])
  ultimately show ?thesis by (simp add: filter_empty_conv)
qed

lemma second_pass_empty:
  assumes f1: "filtered env1 st = Inr fs" and f2: "filtered env2 st = Inr fs"
  shows "update env2 st (apply_changes t (update env1 st ex) ex) = []"
proof (cases "update_try env1 st ex")
  case (Inl e)
  then have "update env1 st ex = []" by (simp add: update_def)
  moreover from update_try_error_mode [OF f1 Inl]
  have "update_try env2 st ex = Inl (Error (''Invalid mode: '' @ mode st))"
    by (intro update_try_invalid_mode [OF f2]) simp_all
  ultimately show ?thesis by (simp add: update_def)
next
  case (Inr R)
  then have upd: "update env1 st ex = R" by (simp add: update_def)
  let ?ex' = "apply_changes t R ex"
  note m = update_try_map_of(1) [OF f1 Inr]
  have dist: "distinct (map fst R)" by (rule update_try_map_of(2) [OF f1 Inr])
  have valid: "\<exists>c. getContent env1 st v = Inr c" if "map_of ex (fileId st v) = None" "v \<in> set fs" for v
  proof (rule ccontr)
    assume "\<not> (\<exists>c. getContent env1 st v = Inr c)"
    then obtain e where "getContent env1 st v = Inl e" by (cases "getContent env1 st v") auto
    then have bad: "mode st \<notin> set [''metadata'', ''thumbnail'', ''transcript'', ''video'', ''audio'']"
      using getContent_error_iff [of env1 st v] by blast
    have "\<exists>v \<in> set fs. map_of ex (fileId st v) = None" using that by blast
    from update_try_invalid_mode [OF f1 bad this] Inr show False by simp
  qed
  have keys: "k \<in> fst ` set ?ex' \<longleftrightarrow>
      (k \<in> fileId st ` set fs \<and> k \<notin> fst ` set ex)
      \<or> (k \<in> fst ` set ex \<and> \<not> (k \<notin> fileId st ` set fs \<and> \<not> noDelete st))" for k
  proof (cases "k \<in> fileId st ` set fs \<and> k \<notin> fst ` set ex")
    case True
    then have "filter (\<lambda>v. fileId st v = k) fs \<noteq> []"
      by (auto simp: filter_empty_conv)
    then have "last (filter (\<lambda>v. fileId st v = k) fs) \<in> set (filter (\<lambda>v. fileId st v = k) fs)"
      by (rule last_in_set)
    then have l: "last (filter (\<lambda>v. fileId st v = k) fs) \<in> set fs"
      and lk: "fileId st (last (filter (\<lambda>v. fileId st v = k) fs)) = k"
      by simp_all
    have "map_of ex k = None" using True by (simp add: map_of_None_keys)
    then obtain c where "getContent env1 st (last (filter (\<lambda>v. fileId st v = k) fs)) = Inr c"
      using valid [OF _ l] lk by auto
    then have "map_of R k = Some (Add, c)" using m [of k] True by simp
    then show ?thesis using apply_changes_keys [OF dist, of k t ex] True by simp
  next
    case False
    then show ?thesis using apply_changes_keys [OF dist, of k t ex] m [of k] by auto
  qed
  have no_new: "filter (\<lambda>v. map_of ?ex' (fileId st v) = None) fs = []"
    using keys by (auto simp: filter_empty_conv map_of_None_keys)
  have "k \<in> fileId st ` set fs" if "\<not> noDelete st" "k \<in> fst ` set ?ex'" for k
    using keys [of k] that by blast
  then have sub: "\<not> noDelete st \<Longrightarrow> set (map fst ?ex') \<subseteq> fileId st ` set fs"
    unfolding set_map by blast
  show ?thesis
    unfolding upd
    using no_new mark_deleted_none [OF sub, of "[]"]
    by (simp add: update_def update_try_filtered [OF f2])
qed

text \<open>
  Claim C3. Take two passes that see the same filtered item set \<open>fs\<close> (the model is a
  function of its inputs, so a pass repeated on the same inputs returns the same value;
  beyond that, the clock, the catalogue and the other collaborators may differ between
  the two passes). If the content fetched for the items of \<open>fs\<close> is the same in both,
  both passes return the same change set from the same prior state. And applying the
  first change set to the prior state (added identifiers inserted, deleted ones
  removed), then reconciling again, gives the empty change set.
\<close>

theorem update_deterministic_fixed_point:
  assumes "filtered env1 st = Inr fs" and "filtered env2 st = Inr fs"
  shows "((\<forall>v \<in> set fs. getContent env1 st v = getContent env2 st v)
            \<longrightarrow> update env1 st ex = update env2 st ex)
         \<and> update env2 st (apply_changes t (update env1 st ex) ex) = []"
  using update_same_filtered [OF assms, of ex] second_pass_empty [OF assms, of t ex]
  by blast

lemma filtered_env_later: "filtered env_later shop_video = Inr [video_long, video_untitled]"
  by (simp add: filter_defs env_later_def env_two_def env0_def shop_video_def filters0_def)

theorem update_deterministic_fixed_point_witness:
  "filtered env_two shop_video = Inr [video_long, video_untitled]
   \<and> filtered env_later shop_video = Inr [video_long, video_untitled]
   \<and> getContent env_two shop_video video_long = getContent env_later shop_video video_long
   \<and> getContent env_two shop_video video_untitled = getContent env_later shop_video video_untitled
   \<and> update env_two shop_video files_prior = update env_later shop_video files_prior
   \<and> apply_changes 7 (update env_two shop_video files_prior) files_prior
       = [(''youtube-channel-UC1-dQw4w9WgXcQ-video'', 1), (''youtube-channel-UC1-abc12345678-video'', 7)]
   \<and> update env_later shop_video (apply_changes 7 (update env_two shop_video files_prior) files_prior) = []"
proof -
  have c: "\<forall>v \<in> set [video_long, video_untitled].
         getContent env_two shop_video v = getContent env_later shop_video v"
    by (simp add: getContent_def shop_video_def)
  have a: "apply_changes 7 (update env_two shop_video files_prior) files_prior
       = [(''youtube-channel-UC1-dQw4w9WgXcQ-video'', 1), (''youtube-channel-UC1-abc12345678-video'', 7)]"
    unfolding update_env_two_value by (simp add: files_prior_def)
  from c update_deterministic_fixed_point [OF filtered_env_two filtered_env_later, of files_prior 7]
  have eq: "update env_two shop_video files_prior = update env_later shop_video files_prior"
    and fp: "update env_later shop_video (apply_changes 7 (update env_two shop_video files_prior) files_prior) = []"
    by blast+
  have c1: "getContent env_two shop_video video_long = getContent env_later shop_video video_long"
    and c2: "getContent env_two shop_video video_untitled = getContent env_later shop_video video_untitled"
    using c by simp_all
  show ?thesis
    by (intro conjI filtered_env_two filtered_env_later c1 c2 eq a fp)
qed

subsection \<open>An expiry expression with an unknown unit\<close>

lemma parseDropAfter_bad_unit:
  assumes "d \<noteq> []" and "last d \<notin> set ''dwmy''"
  shows "parseDropAfter d = Inl (Error (''Invalid dropAfter unit: '' @ [last d]))"
  using assms by (simp add: parseDropAfter_def slice_last_def)

lemma keep_no_expiry_total: "dropAfter f = None \<Longrightarrow> \<exists>b. keep env f v = Inr b"
  by (auto simp: keep_def Let_def)

lemma keep_bad_unit:
  assumes "d \<noteq> []" and "last d \<notin> set ''dwmy''" and "dropAfter f = Some d"
  shows "keep env f v =
     (if published_of env v \<noteq> None \<and> keep env (f\<lparr>dropAfter := None\<rparr>) v = Inr True
      then Inl (Error (''Invalid dropAfter unit: '' @ [last d]))
      else keep env (f\<lparr>dropAfter := None\<rparr>) v)"
  using assms parseDropAfter_bad_unit [OF assms(1,2)]
  by (auto simp: keep_def Let_def shouldDropVideo_def split: option.splits)

lemma applyFilters_error:
  assumes "\<exists>v \<in> set vs. keep env f v = Inl E" and "\<And>v e. keep env f v = Inl e \<Longrightarrow> e = E"
  shows "applyFilters env f vs = Inl E"
  using assms(1)
proof (induction vs)
  case Nil
  then show ?case by simp
next
  case (Cons v vs)
  show ?case
  proof (cases "keep env f v")
    case (Inl e)
    then show ?thesis using assms(2) by simp
  next
    case (Inr b)
    then have "\<exists>v \<in> set vs. keep env f v = Inl E" using Cons.prems by auto
    then show ?thesis using Cons.IH Inr by simp
  qed
qed

lemma applyFilters_cong_on:
  "\<forall>v \<in> set vs. keep env f v = keep env g v \<Longrightarrow> applyFilters env f vs = applyFilters env g vs"
  by (induction vs) (simp_all cong: sum.case_cong)

lemma fileId_filters [simp]: "fileId (st\<lparr>filters := g\<rparr>) = fileId st"
  by (rule ext) (simp add: fileId_def)

lemma getTranscriptContent_filters:
  "getTranscriptContent env (st\<lparr>filters := g\<rparr>) v = getTranscriptContent env st v"
  by (simp add: getTranscriptContent_def Let_def cong: sum.case_cong)

lemma getContent_filters [simp]: "getContent env (st\<lparr>filters := g\<rparr>) v = getContent env st v"
  by (simp add: getContent_def getTranscriptContent_filters)

lemma fetch_new_filters [simp]: "fetch_new env (st\<lparr>filters := g\<rparr>) vs U = fetch_new env st vs U"
  by (induction vs arbitrary: U) (simp_all cong: sum.case_cong)

lemma update_filters_cong:
  assumes "filtered env (st\<lparr>filters := g\<rparr>) = filtered env st"
  shows "update env (st\<lparr>filters := g\<rparr>) ex = update env st ex"
proof (cases "filtered env st")
  case (Inl e)
  then show ?thesis
    using assms by (simp add: update_def update_try_filtered_error)
next
  case (Inr fs)
  then have "filtered env (st\<lparr>filters := g\<rparr>) = Inr fs" using assms by simp
  from update_try_filtered [OF this, of ex] update_try_filtered [OF Inr, of ex]
  have "update_try env (st\<lparr>filters := g\<rparr>) ex = update_try env st ex"
    by (simp cong: sum.case_cong if_cong)
  then show ?thesis by (simp add: update_def)
qed

lemma init_stores_dropAfter:
  "init env credentials (cfg\<lparr>cfg_dropAfter := x\<rparr>) =
     (case init env credentials cfg of
        Inl e \<Rightarrow> Inl e
      | Inr s \<Rightarrow> Inr (s\<lparr>filters := (filters s)\<lparr>dropAfter := x\<rparr>\<rparr>))"
  by (simp add: init_def Let_def split: option.splits sum.splits)

lemma filtered_bad_unit_error:
  assumes "d \<noteq> []" and "last d \<notin> set ''dwmy''" and "dropAfter (filters st) = Some d"
    and "getAllVideoDetails env = Inr vs"
    and "\<exists>v \<in> set vs. published_of env v \<noteq> None \<and> keep env ((filters st)\<lparr>dropAfter := None\<rparr>) v = Inr True"
  shows "filtered env st = Inl (Error (''Invalid dropAfter unit: '' @ [last d]))"
proof -
  let ?E = "Error (''Invalid dropAfter unit: '' @ [last d])"
  note kb = keep_bad_unit [OF assms(1-3), of env]
  from assms(5) obtain w where w: "w \<in> set vs" "published_of env w \<noteq> None"
    "keep env ((filters st)\<lparr>dropAfter := None\<rparr>) w = Inr True" by blast
  then have "keep env (filters st) w = Inl ?E" using kb [of w] by simp
  with w(1) have "\<exists>v \<in> set vs. keep env (filters st) v = Inl ?E" by blast
  moreover have "e = ?E" if "keep env (filters st) v = Inl e" for v e
  proof -
    obtain b where "keep env ((filters st)\<lparr>dropAfter := None\<rparr>) v = Inr b"
      using keep_no_expiry_total [of "(filters st)\<lparr>dropAfter := None\<rparr>" env v] by auto
    then show ?thesis using that kb [of v] by (auto split: if_splits)
  qed
  ultimately have "applyFilters env (filters st) vs = Inl ?E"
    by (rule applyFilters_error)
  then show ?thesis using assms(4) by (simp add: filtered_def)
qed

lemma filtered_bad_unit_unreached:
  assumes "d \<noteq> []" and "last d \<notin> set ''dwmy''" and "dropAfter (filters st) = Some d"
    and "getAllVideoDetails env = Inr vs"
    and "\<not> (\<exists>v \<in> set vs. published_of env v \<noteq> None \<and> keep env ((filters st)\<lparr>dropAfter := None\<rparr>) v = Inr True)"
  shows "filtered env (st\<lparr>filters := (filters st)\<lparr>dropAfter := None\<rparr>\<rparr>) = filtered env st"
proof -
  have "\<forall>v \<in> set vs. keep env ((filters st)\<lparr>dropAfter := None\<rparr>) v = keep env (filters st) v"
    using assms(5) keep_bad_unit [OF assms(1-3), of env] by auto
  then have "applyFilters env ((filters st)\<lparr>dropAfter := None\<rparr>) vs = applyFilters env (filters st) vs"
    by (rule applyFilters_cong_on)
  then show ?thesis using assms(4) by (simp add: filtered_def)
qed

text \<open>
  Claim C5, as stated, fails: initialisation accepts the expression \<^verbatim>\<open>5x\<close> and returns
  a shop; the error is raised by the filter predicate on an item; and with an empty
  catalogue the pass raises nothing and deletes the tracked files.
\<close>

theorem invalid_unit_at_init_counterexample:
  "init env0 creds0 config_bad_unit = Inr shop_bad_unit
   \<and> keep env_two (filters shop_bad_unit) video_long = Inl (Error ''Invalid dropAfter unit: x'')
   \<and> update env0 shop_bad_unit files_prior =
       [(''youtube-channel-UC1-dQw4w9WgXcQ-video'', (Delete, None)),
        (''youtube-channel-UC1-gone0000000-video'', (Delete, None))]"
proof -
  have "init env0 creds0 config_bad_unit = Inr shop_bad_unit"
    by (simp add: init_def creds0_def config_bad_unit_def shop_bad_unit_def shop_video_def
        filters_bad_unit_def filters0_def truthy_str_def parse_bound_def)
  moreover have "keep env_two (filters shop_bad_unit) video_long = Inl (Error ''Invalid dropAfter unit: x'')"
    by (simp add: shop_bad_unit_def keep_bad_unit_sample)
  moreover have "update env0 shop_bad_unit files_prior =
       [(''youtube-channel-UC1-dQw4w9WgXcQ-video'', (Delete, None)),
        (''youtube-channel-UC1-gone0000000-video'', (Delete, None))]"
    by (simp add: update_def update_try_def env0_def shop_bad_unit_def shop_video_def files_prior_def)
  ultimately show ?thesis by blast
qed

text \<open>
  Claim C5, amended. Initialisation does not examine the expiry expression: it stores
  it, and fails or succeeds exactly as it would without it. When the stored expression
  ends in a unit outside d, w, m, y, the error \<^verbatim>\<open>Invalid dropAfter unit: <unit>\<close> is raised
  during filtering, by the evaluation of every item that has a publish date and passes
  the title, start-date and duration checks; any other item is evaluated as if no
  expiry were configured. If the catalogue holds an item that reaches the expiry check,
  \<^verbatim>\<open>update\<close> catches the error and returns the empty change set; if it holds none, the
  pass runs as if no expiry were configured.
\<close>

theorem invalid_unit_raised_while_filtering:
  assumes "d \<noteq> []" and "last d \<notin> set ''dwmy''" and "dropAfter (filters st) = Some d"
  shows "init env credentials (cfg\<lparr>cfg_dropAfter := Some d\<rparr>) =
           (case init env credentials cfg of
              Inl e \<Rightarrow> Inl e
            | Inr s \<Rightarrow> Inr (s\<lparr>filters := (filters s)\<lparr>dropAfter := Some d\<rparr>\<rparr>))
         \<and> (published_of env v \<noteq> None \<and> keep env ((filters st)\<lparr>dropAfter := None\<rparr>) v = Inr True
              \<longrightarrow> keep env (filters st) v = Inl (Error (''Invalid dropAfter unit: '' @ [last d])))
         \<and> (\<not> (published_of env v \<noteq> None \<and> keep env ((filters st)\<lparr>dropAfter := None\<rparr>) v = Inr True)
              \<longrightarrow> keep env (filters st) v = keep env ((filters st)\<lparr>dropAfter := None\<rparr>) v)
         \<and> (getAllVideoDetails env = Inr vs
              \<and> (\<exists>v \<in> set vs. published_of env v \<noteq> None
                     \<and> keep env ((filters st)\<lparr>dropAfter := None\<rparr>) v = Inr True)
              \<longrightarrow> update_try env st ex = Inl (Error (''Invalid dropAfter unit: '' @ [last d]))
                  \<and> update env st ex = [])
         \<and> (getAllVideoDetails env = Inr vs
              \<and> \<not> (\<exists>v \<in> set vs. published_of env v \<noteq> None
                     \<and> keep env ((filters st)\<lparr>dropAfter := None\<rparr>) v = Inr True)
              \<longrightarrow> update env st ex = update env (st\<lparr>filters := (filters st)\<lparr>dropAfter := None\<rparr>\<rparr>) ex)"
proof -
  note kb = keep_bad_unit [OF assms, of env v]
  have a: "published_of env v \<noteq> None \<and> keep env ((filters st)\<lparr>dropAfter := None\<rparr>) v = Inr True
              \<longrightarrow> keep env (filters st) v = Inl (Error (''Invalid dropAfter unit: '' @ [last d]))"
    using kb by simp
  have b: "\<not> (published_of env v \<noteq> None \<and> keep env ((filters st)\<lparr>dropAfter := None\<rparr>) v = Inr True)
              \<longrightarrow> keep env (filters st) v = keep env ((filters st)\<lparr>dropAfter := None\<rparr>) v"
    using kb by auto
  have c: "getAllVideoDetails env = Inr vs
              \<and> (\<exists>v \<in> set vs. published_of env v \<noteq> None
                     \<and> keep env ((filters st)\<lparr>dropAfter := None\<rparr>) v = Inr True)
              \<longrightarrow> update_try env st ex = Inl (Error (''Invalid dropAfter unit: '' @ [last d]))
                  \<and> update env st ex = []"
    using filtered_bad_unit_error [OF assms, of env vs]
    by (auto simp: update_def update_try_filtered_error)
  have e: "getAllVideoDetails env = Inr vs
              \<and> \<not> (\<exists>v \<in> set vs. published_of env v \<noteq> None
                     \<and> keep env ((filters st)\<lparr>dropAfter := None\<rparr>) v = Inr True)
              \<longrightarrow> update env st ex = update env (st\<lparr>filters := (filters st)\<lparr>dropAfter := None\<rparr>\<rparr>) ex"
    using filtered_bad_unit_unreached [OF assms, of env vs]
      update_filters_cong [where env = env and st = st and g = "(filters st)\<lparr>dropAfter := None\<rparr>" and ex = ex]
    by auto
  show ?thesis
    by (intro conjI init_stores_dropAfter a b c e)
qed

theorem invalid_unit_raised_while_filtering_witness:
  "''5x'' \<noteq> [] \<and> last ''5x'' \<notin> set ''dwmy'' \<and> dropAfter (filters shop_bad_unit) = Some ''5x''
   \<and> published_of env_two video_long \<noteq> None
   \<and> keep env_two ((filters shop_bad_unit)\<lparr>dropAfter := None\<rparr>) video_long = Inr True
   \<and> keep env_two (filters shop_bad_unit) video_long = Inl (Error ''Invalid dropAfter unit: x'')
   \<and> \<not> (published_of env_two video_bare \<noteq> None
          \<and> keep env_two ((filters shop_bad_unit)\<lparr>dropAfter := None\<rparr>) video_bare = Inr True)
   \<and> keep env_two (filters shop_bad_unit) video_bare = Inr True
   \<and> getAllVideoDetails env_two = Inr [video_long, video_untitled]
   \<and> update_try env_two shop_bad_unit files_prior = Inl (Error ''Invalid dropAfter unit: x'')
   \<and> update env_two shop_bad_unit files_prior = []
   \<and> getAllVideoDetails env0 = Inr []
   \<and> update env0 shop_bad_unit files_prior
       = update env0 (shop_bad_unit\<lparr>filters := (filters shop_bad_unit)\<lparr>dropAfter := None\<rparr>\<rparr>) files_prior"
proof -
  have h1: "''5x'' \<noteq> []" by simp
  have h2: "last ''5x'' \<notin> set ''dwmy''" by simp
  have h3: "dropAfter (filters shop_bad_unit) = Some ''5x''"
    by (simp add: shop_bad_unit_def filters_bad_unit_def)
  note inst = invalid_unit_raised_while_filtering [OF h1 h2 h3]
  have p: "published_of env_two video_long \<noteq> None"
    by (simp add: published_of_def video_long_def)
  have k: "keep env_two ((filters shop_bad_unit)\<lparr>dropAfter := None\<rparr>) video_long = Inr True"
    by (simp add: filter_defs sample_defs shop_bad_unit_def filters_bad_unit_def)
  have pb: "published_of env_two video_bare = None"
    by (simp add: published_of_def video_bare_def)
  have kb: "keep env_two ((filters shop_bad_unit)\<lparr>dropAfter := None\<rparr>) video_bare = Inr True"
    by (simp add: filter_defs sample_defs shop_bad_unit_def filters_bad_unit_def video_bare_def)
  have g2: "getAllVideoDetails env_two = Inr [video_long, video_untitled]"
    by (simp add: env_two_def)
  have g0: "getAllVideoDetails env0 = Inr []"
    by (simp add: env0_def)
  have r1: "keep env_two (filters shop_bad_unit) video_long = Inl (Error ''Invalid dropAfter unit: x'')"
    using inst [where env = env_two and v = video_long] p k by simp
  have r2: "keep env_two (filters shop_bad_unit) video_bare = Inr True"
    using inst [where env = env_two and v = video_bare] pb kb by simp
  have r3: "update_try env_two shop_bad_unit files_prior = Inl (Error ''Invalid dropAfter unit: x'')
     \<and> update env_two shop_bad_unit files_prior = []"
    using inst [where env = env_two and vs = "[video_long, video_untitled]" and ex = files_prior] g2 p k
    by simp
  have r4: "update env0 shop_bad_unit files_prior
       = update env0 (shop_bad_unit\<lparr>filters := (filters shop_bad_unit)\<lparr>dropAfter := None\<rparr>\<rparr>) files_prior"
    using inst [where env = env0 and vs = "[]" and ex = files_prior] g0 by simp
  show ?thesis using h1 h2 h3 p k pb g2 g0 r1 r2 r3 r4 by simp
qed

end
